theory Spec2Isabelle
  imports Main
begin

section \<open>Python values\<close>

subsection \<open>Characters and strings\<close>

text \<open>
  A Python \<^verbatim>\<open>str\<close> is a sequence of code points. It is modelled as a \<^typ>\<open>string\<close>
  whose characters are read as the code points 0 to 255, so that the length of the list is
  Python's \<^verbatim>\<open>len\<close>. The character classes below are those of CPython on that range.
\<close>

definition code_point :: "char \<Rightarrow> nat" where
  "code_point c = of_char c"

text \<open>\<^verbatim>\<open>str.isspace\<close> on one character: TAB to CR, FS to US, space, NEL and NBSP.\<close>

definition isspace :: "char \<Rightarrow> bool" where
  "isspace c =
     (let n = code_point c
      in (9 \<le> n \<and> n \<le> 13) \<or> (28 \<le> n \<and> n \<le> 32) \<or> n = 133 \<or> n = 160)"

text \<open>
  \<^verbatim>\<open>str.isalnum\<close> on one character: the ASCII digits and letters, and in the upper half
  the letters, the superscript digits and the vulgar fractions.
\<close>

definition isalnum :: "char \<Rightarrow> bool" where
  "isalnum c =
     (let n = code_point c
      in (48 \<le> n \<and> n \<le> 57) \<or> (65 \<le> n \<and> n \<le> 90) \<or> (97 \<le> n \<and> n \<le> 122) \<or>
         n = 170 \<or> n = 178 \<or> n = 179 \<or> n = 181 \<or> n = 185 \<or> n = 186 \<or>
         (188 \<le> n \<and> n \<le> 190) \<or> (192 \<le> n \<and> n \<le> 214) \<or>
         (216 \<le> n \<and> n \<le> 246) \<or> (248 \<le> n \<and> n \<le> 255))"

text \<open>\<^verbatim>\<open>str.lower\<close>: on this range every character maps to one character.\<close>

definition lower_char :: "char \<Rightarrow> char" where
  "lower_char c =
     (let n = code_point c
      in if (65 \<le> n \<and> n \<le> 90) \<or> (192 \<le> n \<and> n \<le> 214) \<or> (216 \<le> n \<and> n \<le> 222)
         then char_of (n + 32) else c)"

definition lower :: "string \<Rightarrow> string" where
  "lower s = map lower_char s"

text \<open>\<^verbatim>\<open>str.strip()\<close> removes the leading and the trailing whitespace.\<close>

definition strip :: "string \<Rightarrow> string" where
  "strip s = rev (dropWhile isspace (rev (dropWhile isspace s)))"

definition startswith :: "string \<Rightarrow> string \<Rightarrow> bool" where
  "startswith s p = (take (length p) s = p)"

definition endswith :: "string \<Rightarrow> string \<Rightarrow> bool" where
  "endswith s p = (length p \<le> length s \<and> drop (length s - length p) s = p)"

text \<open>The line feed that \<^verbatim>\<open>print\<close> puts after its argument.\<close>

definition newline :: string where
  "newline = [CHR 0x0A]"

subsection \<open>Integers and their text\<close>

text \<open>\<^verbatim>\<open>str(n)\<close> for an integer, as the f-strings of the program use it.\<close>

definition digit_char :: "nat \<Rightarrow> char" where
  "digit_char d = char_of (48 + d)"

fun str_nat :: "nat \<Rightarrow> string" where
  "str_nat n = (if n < 10 then [digit_char n] else str_nat (n div 10) @ [digit_char (n mod 10)])"

definition str_int :: "int \<Rightarrow> string" where
  "str_int i = (if i < 0 then CHR ''-'' # str_nat (nat (- i)) else str_nat (nat i))"

text \<open>
  \<^verbatim>\<open>int(s)\<close> for a string, base ten; \<open>None\<close> is \<^verbatim>\<open>ValueError\<close>. CPython skips
  whitespace on both sides (the ASCII whitespace TAB to CR and space; NEL and NBSP are
  turned into spaces first), reads one optional sign, and then digits with single
  underscores between them. A literal of more than 4300 digits is refused
  (\<^verbatim>\<open>sys.int_info.default_max_str_digits\<close>).
\<close>

definition int_space :: "char \<Rightarrow> bool" where
  "int_space c =
     (let n = code_point c in (9 \<le> n \<and> n \<le> 13) \<or> n = 32 \<or> n = 133 \<or> n = 160)"

definition is_digit :: "char \<Rightarrow> bool" where
  "is_digit c = (let n = code_point c in 48 \<le> n \<and> n \<le> 57)"

definition digit_value :: "char \<Rightarrow> int" where
  "digit_value c = int (code_point c) - 48"

text \<open>A digit, then digits with at most one underscore before each.\<close>

fun well_grouped :: "string \<Rightarrow> bool" where
  "well_grouped [] = False"
| "well_grouped [c] = is_digit c"
| "well_grouped (c # d # s) =
     (is_digit c \<and> (if d = CHR ''_'' then well_grouped s else well_grouped (d # s)))"

definition py_int :: "string \<Rightarrow> int option" where
  "py_int s =
     (let s1 = dropWhile int_space s;
          negative = (s1 \<noteq> [] \<and> hd s1 = CHR ''-'');
          s2 = (if s1 \<noteq> [] \<and> (hd s1 = CHR ''+'' \<or> hd s1 = CHR ''-'') then tl s1 else s1);
          body = takeWhile (\<lambda>c. is_digit c \<or> c = CHR ''_'') s2;
          rest = dropWhile (\<lambda>c. is_digit c \<or> c = CHR ''_'') s2;
          digits = filter is_digit body
      in if well_grouped body \<and> length digits \<le> 4300 \<and> dropWhile int_space rest = []
         then Some ((if negative then - 1 else 1) *
                    foldl (\<lambda>a c. 10 * a + digit_value c) 0 digits)
         else None)"

subsection \<open>Exceptions\<close>

text \<open>
  The exceptions the program can meet. \<open>FileNotFoundError\<close> and \<open>NotADirectoryError\<close>
  are subclasses of \<^verbatim>\<open>OSError\<close>, which \<^verbatim>\<open>IOError\<close> names; \<open>IOError\<close> stands for
  every other \<^verbatim>\<open>OSError\<close>. \<open>OtherException\<close> is any other subclass of
  \<^verbatim>\<open>Exception\<close>, with its \<^verbatim>\<open>str\<close>.
\<close>

datatype py_error =
    EOFError
  | IndexError
  | FileNotFoundError
  | NotADirectoryError
  | IOError
  | OtherException string

section \<open>The world of one session\<close>

text \<open>
  The stream of an \<open>OutputFile\<close> is what \<^verbatim>\<open>open(..., 'wb')\<close> returns: a buffered
  writer. It is the path it was opened at, the documents passed through this handle by
  calls of \<^verbatim>\<open>write\<close> that returned (a document is the list of its pages), and the state
  of its buffer: \<open>Buffered k\<close> when nothing has been handed to the device yet and \<open>k\<close>
  bytes wait in the buffer, \<open>OnDevice\<close> once the device has taken bytes.
\<close>

datatype buffer_state = Buffered nat | OnDevice

datatype 'p file_object =
  FileObject (stream_path: string) (stream_docs: "'p list list") (stream_buffer: buffer_state)

record 'p OutputFile =
  name :: string
  page_interval :: "int \<times> int"
  current_page :: int
  stream :: "'p file_object"

text \<open>
  Standard input is the lines still to be read, standard output the text written so far.
  The \<open>OutputFile\<close> objects live in a store and are passed around as references, as in
  Python. \<open>opened\<close> lists the paths opened with mode \<^verbatim>\<open>'wb'\<close> (each such call creates
  or truncates the file). The other fields are the environment. \<open>open_fault\<close> gives the
  paths that cannot be opened for writing, and \<open>write_fault\<close> the paths whose device
  takes no bytes, each with the exception raised; a device either takes bytes or does
  not, for the whole session. \<open>buffer_size\<close> is the size of the buffer that
  \<^verbatim>\<open>open\<close> gives a stream on the path (the block size of the device, or
  \<^verbatim>\<open>io.DEFAULT_BUFFER_SIZE\<close>), and \<open>serialized_size\<close> the number of bytes the PDF
  engine writes for a document.
\<close>

record 'p world =
  stdin :: "string list"
  stdout :: string
  heap :: "nat \<Rightarrow> 'p OutputFile"
  next_ref :: nat
  opened :: "string list"
  open_fault :: "string \<Rightarrow> py_error option"
  write_fault :: "string \<Rightarrow> py_error option"
  buffer_size :: "string \<Rightarrow> nat"
  serialized_size :: "'p list \<Rightarrow> nat"

text \<open>A call either raises or returns, and leaves a world behind in both cases.\<close>

type_synonym ('a, 'p) result = "(py_error + 'a) \<times> 'p world"

definition py_print :: "string \<Rightarrow> 'p world \<Rightarrow> 'p world" where
  "py_print s w = w\<lparr>stdout := stdout w @ s @ newline\<rparr>"

text \<open>\<^verbatim>\<open>input(prompt)\<close>: the prompt is written, then one line is read.\<close>

definition py_input :: "string \<Rightarrow> 'p world \<Rightarrow> (string, 'p) result" where
  "py_input prompt w =
     (let w1 = w\<lparr>stdout := stdout w @ prompt\<rparr>
      in case stdin w of
           [] \<Rightarrow> (Inl EOFError, w1)
         | line # rest \<Rightarrow> (Inr line, w1\<lparr>stdin := rest\<rparr>))"

subsection \<open>Buffered streams\<close>

text \<open>
  A buffered writer hands bytes to the device only when they no longer fit its buffer, or
  when it is closed. \<open>written\<close> is the stream after a call of \<^verbatim>\<open>write\<close> that returned:
  while everything written fits the buffer it only fills, otherwise the device has taken
  bytes. \<open>stream_write\<close> is the call for a whole document: it raises exactly when bytes
  must be handed over and the device takes none. A call that raises leaves the stream as
  it was: what part of the document stays in the buffer depends on the single calls of the
  engine and is not modelled.
\<close>

definition written :: "'p world \<Rightarrow> 'p file_object \<Rightarrow> 'p list \<Rightarrow> 'p file_object" where
  "written w f doc =
     FileObject (stream_path f) (stream_docs f @ [doc])
       (case stream_buffer f of
          Buffered k \<Rightarrow>
            if k + serialized_size w doc \<le> buffer_size w (stream_path f)
            then Buffered (k + serialized_size w doc) else OnDevice
        | OnDevice \<Rightarrow> OnDevice)"

definition stream_write :: "'p world \<Rightarrow> 'p file_object \<Rightarrow> 'p list \<Rightarrow> py_error + 'p file_object" where
  "stream_write w f doc =
     (case stream_buffer f of
        Buffered k \<Rightarrow>
          if k + serialized_size w doc \<le> buffer_size w (stream_path f) then Inr (written w f doc)
          else (case write_fault w (stream_path f) of
                  Some e \<Rightarrow> Inl e
                | None \<Rightarrow> Inr (written w f doc))
      | OnDevice \<Rightarrow> Inr (written w f doc))"


section \<open>The input validators\<close>

definition PROMPT_STR :: string where
  "PROMPT_STR = ''> ''"

function get_int :: "string \<Rightarrow> string \<Rightarrow> int \<Rightarrow> int \<Rightarrow> 'p world \<Rightarrow> (int, 'p) result" where
  "get_int prompt error_msg lo hi w =
     (case py_input prompt w of
        (Inl e, w1) \<Rightarrow> (Inl e, w1)
      | (Inr line, w1) \<Rightarrow>
          (case py_int line of
             None \<Rightarrow> get_int prompt error_msg lo hi (py_print ''Please enter a number.'' w1)
           | Some x \<Rightarrow>
               if lo \<le> x \<and> x \<le> hi then (Inr x, w1)
               else get_int prompt error_msg lo hi (py_print error_msg w1)))"
  by pat_completeness auto
termination
  by (relation "measure (\<lambda>(prompt, error_msg, lo, hi, w). length (stdin w))")
     (auto simp: py_input_def py_print_def Let_def split: list.splits)

text \<open>The characters no file name may hold, on Windows or Unix.\<close>

definition forbidden_chars :: string where
  "forbidden_chars =
     [CHR ''<'', CHR ''>'', CHR '':'', CHR 0x22, CHR ''/'', CHR 0x5C, CHR ''|'', CHR ''?'', CHR ''*'']"

text \<open>
  The chain of checks in the body of \<^verbatim>\<open>get_file_name\<close>: the value of \<^verbatim>\<open>done\<close> after
  it, and the message it prints, if any.
\<close>

definition check_file_name :: "bool \<Rightarrow> string \<Rightarrow> bool \<times> string option" where
  "check_file_name allow_hidden nm =
     (if nm = [] then
        (False, Some ''File name cannot be empty.'')
      else if \<exists>c \<in> set nm. c \<in> set forbidden_chars then
        (False, Some (''File name cannot contain any of these characters: '' @ forbidden_chars))
      else if \<not> allow_hidden \<and> startswith nm ''.'' then
        (False, Some ''File name cannot start with a dot.'')
      else if length nm > 255 then
        (False, Some ''File name is too long. Maximum length is 255 characters.'')
      else if \<not> (\<exists>c \<in> set nm. isalnum c) then
        (False, Some ''File name must contain at least one letter or number.'')
      else
        (True, None))"

text \<open>
  \<^verbatim>\<open>return name\<close> stands in the body of the loop, so the first pass returns whatever
  \<^verbatim>\<open>done\<close> is; \<^verbatim>\<open>error_msg\<close> is never used.
\<close>

definition get_file_name :: "string \<Rightarrow> string \<Rightarrow> bool \<Rightarrow> 'p world \<Rightarrow> (string, 'p) result" where
  "get_file_name prompt error_msg allow_hidden w =
     (case py_input prompt w of
        (Inl e, w1) \<Rightarrow> (Inl e, w1)
      | (Inr line, w1) \<Rightarrow>
          (let nm = strip line
           in case check_file_name allow_hidden nm of
                (done, Some msg) \<Rightarrow> (Inr nm, py_print msg w1)
              | (done, None) \<Rightarrow> (Inr nm, w1)))"

section \<open>The filesystem scanner\<close>

text \<open>
  What the scanner sees of the filesystem: a path names nothing, a directory with its
  entries in enumeration order, or something that is not a directory.
  \<^verbatim>\<open>os.listdir\<close> raises on the first and on the last.
\<close>

datatype fs_node = Directory "string list" | RegularFile

type_synonym filesystem = "string \<Rightarrow> fs_node option"

definition os_path_exists :: "filesystem \<Rightarrow> string \<Rightarrow> bool" where
  "os_path_exists fs p = (fs p \<noteq> None)"

definition os_listdir :: "filesystem \<Rightarrow> string \<Rightarrow> py_error + string list" where
  "os_listdir fs p =
     (case fs p of
        None \<Rightarrow> Inl FileNotFoundError
      | Some RegularFile \<Rightarrow> Inl NotADirectoryError
      | Some (Directory entries) \<Rightarrow> Inr entries)"

text \<open>
  \<^verbatim>\<open>list_pdf_files\<close> (the same text in \<^verbatim>\<open>pdf_splitter.py\<close> and in
  \<^verbatim>\<open>pdft_utils/files_management.py\<close>): \<open>Inr None\<close> is the returned \<^verbatim>\<open>None\<close>.
\<close>

definition list_pdf_files :: "filesystem \<Rightarrow> string \<Rightarrow> py_error + string list option" where
  "list_pdf_files fs directory_path =
     (if \<not> os_path_exists fs directory_path then Inr None
      else case os_listdir fs directory_path of
             Inl e \<Rightarrow> Inl e
           | Inr entries \<Rightarrow> Inr (Some (filter (\<lambda>file. endswith (lower file) ''.pdf'') entries)))"

section \<open>The output plan\<close>

text \<open>\<^verbatim>\<open>os.path.join\<close> of two components, as \<^verbatim>\<open>posixpath\<close> defines it.\<close>

definition os_path_join :: "string \<Rightarrow> string \<Rightarrow> string" where
  "os_path_join a b =
     (if startswith b ''/'' then b
      else if a = [] \<or> endswith a ''/'' then a @ b
      else a @ ''/'' @ b)"

text \<open>
  The constructor of \<open>OutputFile\<close> in \<^verbatim>\<open>pdf_splitter.py\<close>, the class the program uses:
  the file is opened when the object is made. A failing \<^verbatim>\<open>open\<close> leaves no object.
  The second copy of the class, in \<^verbatim>\<open>pdft_types/output_file.py\<close>, has the same text
  but no import of \<^verbatim>\<open>os\<close>; no part of the program imports it.
\<close>

definition OutputFile_init :: "string \<Rightarrow> string \<Rightarrow> int \<times> int \<Rightarrow> 'p world \<Rightarrow> (nat, 'p) result" where
  "OutputFile_init path nm interval w =
     (let target = os_path_join path nm
      in case open_fault w target of
           Some e \<Rightarrow> (Inl e, w)
         | None \<Rightarrow>
             (let self = \<lparr>name = nm, page_interval = interval, current_page = fst interval,
                          stream = FileObject target [] (Buffered 0)\<rparr>;
                  r = next_ref w
              in (Inr r, w\<lparr>heap := (heap w)(r := self), next_ref := Suc r,
                            opened := opened w @ [target]\<rparr>)))"

text \<open>
  \<^verbatim>\<open>OutputFile.pages\<close>, run until it is exhausted (\<^verbatim>\<open>list(self.pages())\<close>): the page
  numbers it yields and the object it leaves.
\<close>

function pages :: "'p OutputFile \<Rightarrow> int list \<times> 'p OutputFile" where
  "pages self =
     (if current_page self \<le> snd (page_interval self) then
        (let (ys, self') = pages (self\<lparr>current_page := current_page self + 1\<rparr>)
         in (current_page self # ys, self'))
      else ([], self))"
  by pat_completeness auto
termination
  by (relation "measure (\<lambda>self. nat (snd (page_interval self) + 1 - current_page self))") auto


definition OutputFile_str :: "'p OutputFile \<Rightarrow> string" where
  "OutputFile_str self =
     name self @ '' ('' @ str_int (fst (page_interval self)) @ ''-'' @
       str_int (snd (page_interval self)) @ '')''"

text \<open>The body of the loop of \<^verbatim>\<open>get_output_files\<close>, for \<open>i\<close> and the \<open>k\<close> rounds left.\<close>

fun collect_targets ::
  "string \<Rightarrow> int \<Rightarrow> nat \<Rightarrow> nat \<Rightarrow> nat list \<Rightarrow> 'p world \<Rightarrow> (nat list, 'p) result" where
  "collect_targets path page_count i 0 targets w = (Inr targets, w)"
| "collect_targets path page_count i (Suc k) targets w =
     (let w1 = py_print ''--------------------------------'' w;
          w2 = py_print (''Output file '' @ str_int (int i + 1) @ '':'') w1
      in case get_file_name (PROMPT_STR @ ''File name: '') ''Invalid file name'' False w2 of
           (Inl e, w3) \<Rightarrow> (Inl e, w3)
         | (Inr nm, w3) \<Rightarrow>
             (case get_int (PROMPT_STR @ ''First page: '') ''Invalid page number'' 1 page_count w3 of
                (Inl e, w4) \<Rightarrow> (Inl e, w4)
              | (Inr start, w4) \<Rightarrow>
                  (case get_int (PROMPT_STR @ ''Last page: '') ''Invalid page number''
                          start page_count w4 of
                     (Inl e, w5) \<Rightarrow> (Inl e, w5)
                   | (Inr stop, w5) \<Rightarrow>
                       (case OutputFile_init path (nm @ ''.pdf'') (start, stop) w5 of
                          (Inl e, w6) \<Rightarrow> (Inl e, w6)
                        | (Inr r, w6) \<Rightarrow>
                            collect_targets path page_count (Suc i) k (targets @ [r]) w6))))"

definition get_output_files :: "string \<Rightarrow> int \<Rightarrow> 'p world \<Rightarrow> (nat list, 'p) result" where
  "get_output_files path page_count w =
     (let w1 = py_print (newline @ ''How many output files do you want to create?'') w
      in case get_int PROMPT_STR ''Please enter a number between 1 and 100'' 1 100 w1 of
           (Inl e, w2) \<Rightarrow> (Inl e, w2)
         | (Inr target_count, w2) \<Rightarrow> collect_targets path page_count 0 (nat target_count) [] w2)"

section \<open>Generation\<close>

text \<open>
  The reader is the list of the pages of the source. \<^verbatim>\<open>PdfFileReader.getPage\<close> indexes
  that list as Python does: a negative index counts from the end, and an index outside
  raises \<^verbatim>\<open>IndexError\<close>.
\<close>

definition getPage :: "'p list \<Rightarrow> int \<Rightarrow> py_error + 'p" where
  "getPage reader pageNumber =
     (let n = int (length reader);
          j = (if pageNumber < 0 then pageNumber + n else pageNumber)
      in if 0 \<le> j \<and> j < n then Inr (reader ! nat j) else Inl IndexError)"

text \<open>
  The inner loop of \<^verbatim>\<open>generate_output_files\<close>: the generator \<^verbatim>\<open>output.pages()\<close> is
  resumed once for each round, so the cursor moves on only after the page was added. The
  writer is the list of the pages added.
\<close>

function copy_pages :: "'p list \<Rightarrow> 'p OutputFile \<Rightarrow> 'p list \<Rightarrow> (py_error + 'p list) \<times> 'p OutputFile" where
  "copy_pages reader self writer =
     (if current_page self \<le> snd (page_interval self) then
        (case getPage reader (current_page self - 1) of
           Inl e \<Rightarrow> (Inl e, self)
         | Inr page \<Rightarrow>
             copy_pages reader (self\<lparr>current_page := current_page self + 1\<rparr>) (writer @ [page]))
      else (Inr writer, self))"
  by pat_completeness auto
termination
  by (relation "measure (\<lambda>(reader, self, writer).
        nat (snd (page_interval self) + 1 - current_page self))") auto

text \<open>
  \<^verbatim>\<open>writer.write(output.stream)\<close>: the engine writes the document to the stream and
  does not flush it, so the call raises only what the buffered write raises.
\<close>

definition PdfFileWriter_write :: "'p list \<Rightarrow> nat \<Rightarrow> 'p world \<Rightarrow> (unit, 'p) result" where
  "PdfFileWriter_write writer output w =
     (let self = heap w output
      in case stream_write w (stream self) writer of
           Inl e \<Rightarrow> (Inl e, w)
         | Inr f \<Rightarrow> (Inr (), w\<lparr>heap := (heap w)(output := self\<lparr>stream := f\<rparr>)\<rparr>))"

fun generate_output_files ::
  "'p list \<Rightarrow> nat list \<Rightarrow> (nat \<Rightarrow> 'p world \<Rightarrow> (unit, 'p) result) \<Rightarrow> 'p world \<Rightarrow> (unit, 'p) result" where
  "generate_output_files reader [] generated_callback w = (Inr (), w)"
| "generate_output_files reader (output # output_files) generated_callback w =
     (case copy_pages reader (heap w output) [] of
        (Inl e, self) \<Rightarrow> (Inl e, w\<lparr>heap := (heap w)(output := self)\<rparr>)
      | (Inr writer, self) \<Rightarrow>
          (case PdfFileWriter_write writer output (w\<lparr>heap := (heap w)(output := self)\<rparr>) of
             (Inl e, w1) \<Rightarrow> (Inl e, w1)
           | (Inr u, w1) \<Rightarrow>
               (case generated_callback output w1 of
                  (Inl e, w2) \<Rightarrow> (Inl e, w2)
                | (Inr u, w2) \<Rightarrow>
                    generate_output_files reader output_files generated_callback w2)))"

section \<open>The driver\<close>

text \<open>The callback \<^verbatim>\<open>main\<close> passes: \<^verbatim>\<open>lambda file: print(f'Generated: {file}')\<close>.\<close>

definition print_generated :: "nat \<Rightarrow> 'p world \<Rightarrow> (unit, 'p) result" where
  "print_generated file w = (Inr (), py_print (''Generated: '' @ OutputFile_str (heap w file)) w)"

text \<open>
  The three \<^verbatim>\<open>except\<close> clauses around the generation, in their order:
  \<^verbatim>\<open>FileNotFoundError\<close>, then \<^verbatim>\<open>IOError\<close> (every other \<^verbatim>\<open>OSError\<close>), then
  \<^verbatim>\<open>Exception\<close>, whose message ends with \<^verbatim>\<open>str(e)\<close>.
\<close>

fun except_message :: "string \<Rightarrow> py_error \<Rightarrow> string" where
  "except_message selected_file FileNotFoundError = ''File not found: '' @ selected_file"
| "except_message selected_file IOError = ''Error reading file: '' @ selected_file"
| "except_message selected_file NotADirectoryError = ''Error reading file: '' @ selected_file"
| "except_message selected_file IndexError =
     ''An unexpected error occurred: list index out of range''"
| "except_message selected_file EOFError =
     ''An unexpected error occurred: EOF when reading a line''"
| "except_message selected_file (OtherException msg) = ''An unexpected error occurred: '' @ msg"

text \<open>Lines 215 to 223 of \<^verbatim>\<open>main\<close>: the generation and its handlers.\<close>

definition main_generate :: "string \<Rightarrow> 'p list \<Rightarrow> nat list \<Rightarrow> 'p world \<Rightarrow> 'p world" where
  "main_generate selected_file reader output_files w =
     (let w1 = py_print (newline @ ''Generating output files...'') w
      in case generate_output_files reader output_files print_generated w1 of
           (Inr u, w2) \<Rightarrow> w2
         | (Inl e, w2) \<Rightarrow> py_print (except_message selected_file e) w2)"

text \<open>
  Lines 208 to 223 of \<^verbatim>\<open>main\<close>, from the reader of the selected file on:
  \<^verbatim>\<open>get_output_files\<close> stands outside the \<^verbatim>\<open>try\<close>, so what it raises leaves \<^verbatim>\<open>main\<close>.
\<close>

definition main_from_reader :: "string \<Rightarrow> string \<Rightarrow> 'p list \<Rightarrow> 'p world \<Rightarrow> (unit, 'p) result" where
  "main_from_reader path selected_file reader w =
     (let page_count = int (length reader);
          w1 = py_print (''Selected file: '' @ selected_file @ '' ('' @ str_int page_count @
                 '' pages)'') w
      in case get_output_files path page_count w1 of
           (Inl e, w2) \<Rightarrow> (Inl e, w2)
         | (Inr output_files, w2) \<Rightarrow> (Inr (), main_generate selected_file reader output_files w2))"

section \<open>Generation as the specification words it\<close>

text \<open>
  The second reading of the generation step, after the words of the specification and not
  after the code: for each planned output, in plan order, a new document receives the
  source pages of the inclusive, 1-indexed range in ascending order, the document is
  serialised to the stream of the output, and then the completion callback is invoked.
  \<open>plan_document\<close> is that document; \<open>generated\<close> is the output once its document
  is written to its stream and its page cursor is spent.
\<close>

definition plan_document :: "'p list \<Rightarrow> 'p OutputFile \<Rightarrow> 'p list" where
  "plan_document reader self =
     map (\<lambda>k. reader ! nat (k - 1)) [fst (page_interval self)..snd (page_interval self)]"

definition generated :: "'p world \<Rightarrow> 'p list \<Rightarrow> 'p OutputFile \<Rightarrow> 'p OutputFile" where
  "generated w reader self =
     self\<lparr>current_page := snd (page_interval self) + 1,
          stream := written w (stream self) (plan_document reader self)\<rparr>"

fun spec_generate_output_files ::
  "'p list \<Rightarrow> nat list \<Rightarrow> (nat \<Rightarrow> 'p world \<Rightarrow> (unit, 'p) result) \<Rightarrow> 'p world \<Rightarrow> (unit, 'p) result" where
  "spec_generate_output_files reader [] generated_callback w = (Inr (), w)"
| "spec_generate_output_files reader (output # output_files) generated_callback w =
     (case generated_callback output
             (w\<lparr>heap := (heap w)(output := generated w reader (heap w output))\<rparr>) of
        (Inl e, w1) \<Rightarrow> (Inl e, w1)
      | (Inr u, w1) \<Rightarrow> spec_generate_output_files reader output_files generated_callback w1)"

text \<open>
  An output as plan collection leaves it: the cursor on the first page of the interval, and
  the interval within the pages of the source.
\<close>

definition planned :: "'p list \<Rightarrow> 'p OutputFile \<Rightarrow> bool" where
  "planned reader self \<longleftrightarrow>
     current_page self = fst (page_interval self) \<and>
     1 \<le> fst (page_interval self) \<and>
     fst (page_interval self) \<le> snd (page_interval self) \<and>
     snd (page_interval self) \<le> int (length reader)"

section \<open>Worlds to run the program in\<close>

definition no_object :: "'p OutputFile" where
  "no_object =
     \<lparr>name = [], page_interval = (0, 0), current_page = 0,
      stream = FileObject [] [] (Buffered 0)\<rparr>"

text \<open>
  The start of a session: the lines typed, nothing written, no object, no fault, buffers of
  8192 bytes, and documents of 1000 bytes and 4000 more for each page.
\<close>

definition session_start :: "string list \<Rightarrow> 'p world" where
  "session_start ls =
     \<lparr>stdin = ls, stdout = [], heap = (\<lambda>r. no_object), next_ref = 0, opened = [],
      open_fault = (\<lambda>p. None), write_fault = (\<lambda>p. None),
      buffer_size = (\<lambda>p. 8192), serialized_size = (\<lambda>doc. 1000 + 4000 * length doc)\<rparr>"

text \<open>
  What a user types for one output, when the two page numbers are accepted at the first
  try: the line for the name, and the lines for the first and the last page with the
  numbers they stand for. \<open>answered\<close> says that the two lines parse to these numbers
  and that the numbers pass the bounds of the two prompts; \<open>planned_output\<close> is the
  object the constructor makes from such answers.
\<close>

record answer =
  name_line :: string
  first_line :: string
  first_page :: int
  last_line :: string
  last_page :: int

definition answer_lines :: "answer \<Rightarrow> string list" where
  "answer_lines a = [name_line a, first_line a, last_line a]"

definition answered :: "int \<Rightarrow> answer \<Rightarrow> bool" where
  "answered page_count a \<longleftrightarrow>
     py_int (first_line a) = Some (first_page a) \<and>
     1 \<le> first_page a \<and> first_page a \<le> page_count \<and>
     py_int (last_line a) = Some (last_page a) \<and>
     first_page a \<le> last_page a \<and> last_page a \<le> page_count"

definition target_path :: "string \<Rightarrow> answer \<Rightarrow> string" where
  "target_path path a = os_path_join path (strip (name_line a) @ ''.pdf'')"

definition planned_output :: "string \<Rightarrow> answer \<Rightarrow> 'p OutputFile" where
  "planned_output path a =
     \<lparr>name = strip (name_line a) @ ''.pdf'',
      page_interval = (first_page a, last_page a),
      current_page = first_page a,
      stream = FileObject (target_path path a) [] (Buffered 0)\<rparr>"

text \<open>A plan of two outputs over a source of three pages, as the constructor leaves them.\<close>

definition two_planned :: "nat world" where
  "two_planned =
     snd (OutputFile_init ''d'' ''b.pdf'' (2, 3)
       (snd (OutputFile_init ''d'' ''a.pdf'' (1, 2) (session_start []))))"



text \<open>A session in which two outputs are asked for; the name of the second is blank.\<close>

definition typed_answers :: "answer list" where
  "typed_answers =
     [\<lparr>name_line = ''a'', first_line = ''1'', first_page = 1, last_line = ''2'', last_page = 2\<rparr>,
      \<lparr>name_line = ''  '', first_line = ''2'', first_page = 2, last_line = ''3'', last_page = 3\<rparr>]"

definition typed_session :: "'p world" where
  "typed_session = session_start [''2'', ''a'', ''1'', ''2'', ''  '', ''2'', ''3'', ''zz'']"

section \<open>Reading lines\<close>

declare get_int.simps [simp del]
declare pages.simps [simp del]
declare copy_pages.simps [simp del]
declare str_nat.simps [simp del]

lemma py_input_Nil:
  "stdin w = [] \<Longrightarrow> py_input prompt w = (Inl EOFError, w\<lparr>stdout := stdout w @ prompt\<rparr>)"
  by (simp add: py_input_def)

lemma py_input_Cons:
  "stdin w = line # rest \<Longrightarrow>
   py_input prompt w = (Inr line, w\<lparr>stdout := stdout w @ prompt, stdin := rest\<rparr>)"
  by (simp add: py_input_def)

lemma get_file_name_line:
  "stdin w = line # rest \<Longrightarrow>
   get_file_name prompt error_msg allow_hidden w =
     (Inr (strip line),
      w\<lparr>stdout := stdout w @ prompt @
            (case snd (check_file_name allow_hidden (strip line)) of
               None \<Rightarrow> [] | Some msg \<Rightarrow> msg @ newline),
         stdin := rest\<rparr>)"
  by (cases "check_file_name allow_hidden (strip line)")
     (auto simp: get_file_name_def py_input_Cons py_print_def split: option.splits)

lemma get_file_name_eof:
  "stdin w = [] \<Longrightarrow>
   get_file_name prompt error_msg allow_hidden w = (Inl EOFError, w\<lparr>stdout := stdout w @ prompt\<rparr>)"
  by (simp add: get_file_name_def py_input_Nil)

lemma strip_parts:
  "\<exists>a b. line = a @ strip line @ b \<and> (\<forall>c\<in>set a. isspace c) \<and> (\<forall>c\<in>set b. isspace c)"
proof -
  let ?m = "dropWhile isspace line"
  let ?t = "takeWhile isspace (rev ?m)"
  have "?m = rev (dropWhile isspace (rev ?m)) @ rev ?t"
    by (metis rev_append rev_rev_ident takeWhile_dropWhile_id)
  then have "line = takeWhile isspace line @ strip line @ rev ?t"
    by (metis strip_def takeWhile_dropWhile_id)
  moreover have "\<forall>c\<in>set (takeWhile isspace line). isspace c"
    by (auto dest: set_takeWhileD)
  moreover have "\<forall>c\<in>set (rev ?t). isspace c"
    by (auto dest: set_takeWhileD)
  ultimately show ?thesis by blast
qed

lemma strip_ends:
  assumes "strip line \<noteq> []"
  shows "\<not> isspace (hd (strip line)) \<and> \<not> isspace (last (strip line))"
proof -
  let ?m = "dropWhile isspace line"
  let ?d = "dropWhile isspace (rev ?m)"
  from assms have d: "?d \<noteq> []" by (simp add: strip_def)
  have m: "?m \<noteq> []"
  proof
    assume a: "?m = []"
    have "?d = []" unfolding a by simp
    with d show False by contradiction
  qed
  have "last (strip line) = hd ?d" using d by (simp add: strip_def last_rev)
  moreover have "\<not> isspace (hd ?d)" using d by (rule hd_dropWhile)
  moreover have "hd (strip line) = last ?d" using d by (simp add: strip_def hd_rev)
  moreover have "last ?d = last (rev ?m)"
    using d by (metis last_appendR takeWhile_dropWhile_id)
  moreover have "last (rev ?m) = hd ?m" using m by (simp add: last_rev)
  moreover have "\<not> isspace (hd ?m)" using m by (rule hd_dropWhile)
  ultimately show ?thesis by simp
qed

section \<open>The bounded-integer prompt\<close>

lemma get_int_in_range:
  "get_int prompt error_msg lo hi w = (Inr x, w') \<Longrightarrow> lo \<le> x \<and> x \<le> hi"
proof (induction prompt error_msg lo hi w rule: get_int.induct)
  case (1 prompt error_msg lo hi w)
  show ?case
  proof (cases "py_input prompt w")
    case (Pair r w1)
    show ?thesis
    proof (cases r)
      case (Inl e)
      with Pair "1.prems" show ?thesis by (simp add: get_int.simps [of prompt error_msg lo hi w])
    next
      case (Inr line)
      show ?thesis
      proof (cases "py_int line")
        case None
        with Pair Inr "1.prems"
        have "get_int prompt error_msg lo hi (py_print ''Please enter a number.'' w1) = (Inr x, w')"
          by (simp add: get_int.simps [of prompt error_msg lo hi w])
        with "1.IH"(1) [of r w1 line] Pair Inr None show ?thesis by simp
      next
        case (Some y)
        show ?thesis
        proof (cases "lo \<le> y \<and> y \<le> hi")
          case True
          with Pair Inr Some "1.prems" show ?thesis
            by (simp add: get_int.simps [of prompt error_msg lo hi w])
        next
          case False
          with Pair Inr Some "1.prems"
          have "get_int prompt error_msg lo hi (py_print error_msg w1) = (Inr x, w')"
            by (simp add: get_int.simps [of prompt error_msg lo hi w])
          with "1.IH"(2) [of r w1 line y] Pair Inr Some False show ?thesis by simp
        qed
      qed
    qed
  qed
qed

text \<open>One round of the loop on a line that is turned down.\<close>

lemma get_int_retry:
  assumes "stdin w = line # rest"
    and "case py_int line of None \<Rightarrow> True | Some y \<Rightarrow> \<not> (lo \<le> y \<and> y \<le> hi)"
  shows "get_int prompt error_msg lo hi w =
         get_int prompt error_msg lo hi
           (w\<lparr>stdin := rest,
              stdout := stdout w @ prompt @
                 (case py_int line of None \<Rightarrow> ''Please enter a number.'' | Some y \<Rightarrow> error_msg) @
                 newline\<rparr>)"
  using assms
  by (subst get_int.simps) (auto simp: py_input_Cons py_print_def split: option.splits)

lemma get_int_accept:
  assumes "stdin w = line # rest" and "py_int line = Some x" and "lo \<le> x" and "x \<le> hi"
  shows "get_int prompt error_msg lo hi w = (Inr x, w\<lparr>stdin := rest, stdout := stdout w @ prompt\<rparr>)"
  using assms by (subst get_int.simps) (simp add: py_input_Cons)

lemma get_int_eof:
  assumes "stdin w = []"
  shows "get_int prompt error_msg lo hi w = (Inl EOFError, w\<lparr>stdout := stdout w @ prompt\<rparr>)"
  using assms by (subst get_int.simps) (simp add: py_input_Nil)

lemma get_int_script:
  assumes "stdin w = bad @ good # rest"
    and "\<forall>l\<in>set bad. case py_int l of None \<Rightarrow> True | Some y \<Rightarrow> \<not> (lo \<le> y \<and> y \<le> hi)"
    and "py_int good = Some x" and "lo \<le> x" and "x \<le> hi"
  shows "get_int prompt error_msg lo hi w =
           (Inr x,
            w\<lparr>stdin := rest,
               stdout := stdout w @
                 concat (map (\<lambda>l. prompt @
                   (case py_int l of None \<Rightarrow> ''Please enter a number.'' | Some y \<Rightarrow> error_msg) @
                   newline) bad) @ prompt\<rparr>)"
  using assms(1,2)
proof (induction bad arbitrary: w)
  case Nil
  then show ?case using get_int_accept [of w good rest x lo hi] assms(3-5) by simp
next
  case (Cons l bad)
  let ?w = "w\<lparr>stdin := bad @ good # rest,
              stdout := stdout w @ prompt @
                (case py_int l of None \<Rightarrow> ''Please enter a number.'' | Some y \<Rightarrow> error_msg) @
                newline\<rparr>"
  have "get_int prompt error_msg lo hi w = get_int prompt error_msg lo hi ?w"
    using Cons.prems by (intro get_int_retry) simp_all
  also have "\<dots> = (Inr x,
            ?w\<lparr>stdin := rest,
               stdout := stdout ?w @
                 concat (map (\<lambda>l. prompt @
                   (case py_int l of None \<Rightarrow> ''Please enter a number.'' | Some y \<Rightarrow> error_msg) @
                   newline) bad) @ prompt\<rparr>)"
    using Cons.prems by (intro Cons.IH) simp_all
  finally show ?case by simp
qed

lemma get_int_exhausted:
  assumes "\<forall>l\<in>set (stdin w). case py_int l of None \<Rightarrow> True | Some y \<Rightarrow> \<not> (lo \<le> y \<and> y \<le> hi)"
  shows "get_int prompt error_msg lo hi w =
           (Inl EOFError,
            w\<lparr>stdin := [],
               stdout := stdout w @
                 concat (map (\<lambda>l. prompt @
                   (case py_int l of None \<Rightarrow> ''Please enter a number.'' | Some y \<Rightarrow> error_msg) @
                   newline) (stdin w)) @ prompt\<rparr>)"
  using assms
proof (induction "stdin w" arbitrary: w)
  case Nil
  then show ?case using get_int_eof [of w prompt error_msg lo hi] by simp
next
  case (Cons l ls)
  let ?w = "w\<lparr>stdin := ls,
              stdout := stdout w @ prompt @
                (case py_int l of None \<Rightarrow> ''Please enter a number.'' | Some y \<Rightarrow> error_msg) @
                newline\<rparr>"
  have l: "stdin w = l # ls" using Cons.hyps(2) by simp
  have "get_int prompt error_msg lo hi w = get_int prompt error_msg lo hi ?w"
    using Cons.prems l by (intro get_int_retry) simp_all
  also have "\<dots> = (Inl EOFError,
            ?w\<lparr>stdin := [],
               stdout := stdout ?w @
                 concat (map (\<lambda>l. prompt @
                   (case py_int l of None \<Rightarrow> ''Please enter a number.'' | Some y \<Rightarrow> error_msg) @
                   newline) (stdin ?w)) @ prompt\<rparr>)"
    using Cons.prems l by (intro Cons.hyps(1)) simp_all
  finally show ?case using l by simp
qed

text \<open>\<^verbatim>\<open>get_int\<close> touches nothing but the two standard streams.\<close>

lemma get_int_frame:
  "heap (snd (get_int prompt error_msg lo hi w)) = heap w \<and>
   next_ref (snd (get_int prompt error_msg lo hi w)) = next_ref w \<and>
   opened (snd (get_int prompt error_msg lo hi w)) = opened w \<and>
   open_fault (snd (get_int prompt error_msg lo hi w)) = open_fault w \<and>
   write_fault (snd (get_int prompt error_msg lo hi w)) = write_fault w"
proof (induction prompt error_msg lo hi w rule: get_int.induct)
  case (1 prompt error_msg lo hi w)
  show ?case
  proof (cases "stdin w")
    case Nil
    then show ?thesis
      using get_int_eof [of w prompt error_msg lo hi] by simp
  next
    case (Cons line rest)
    let ?w1 = "w\<lparr>stdout := stdout w @ prompt, stdin := rest\<rparr>"
    have p: "py_input prompt w = (Inr line, ?w1)" using Cons by (rule py_input_Cons)
    show ?thesis
    proof (cases "py_int line")
      case None
      then show ?thesis
        using "1.IH"(1) [of "Inr line" ?w1 line] p
        by (subst (1 2 3 4 5) get_int.simps) (simp add: py_print_def)
    next
      case (Some y)
      show ?thesis
      proof (cases "lo \<le> y \<and> y \<le> hi")
        case True
        then show ?thesis
          using p Some by (subst (1 2 3 4 5) get_int.simps) simp
      next
        case False
        then show ?thesis
          using "1.IH"(2) [of "Inr line" ?w1 line y] p Some
          by (subst (1 2 3 4 5) get_int.simps) (simp add: py_print_def)
      qed
    qed
  qed
qed

text \<open>
  C2. Whatever the bounds, a value \<^verbatim>\<open>get_int\<close> returns lies between them. Lines that do
  not parse, or parse to a value outside the bounds, are answered with the fixed message
  or with \<^verbatim>\<open>error_msg\<close> and the prompt again, and the first line that parses to a value
  within the bounds gives the result: the lines after it are left unread. When no such line
  comes, the loop ends only with the end of the input.
\<close>

theorem get_int_returns_first_valid:
  "(\<forall>x w'. get_int prompt error_msg lo hi w = (Inr x, w') \<longrightarrow> lo \<le> x \<and> x \<le> hi) \<and>
   (\<forall>bad good rest x.
      stdin w = bad @ good # rest \<and>
      (\<forall>l\<in>set bad. case py_int l of None \<Rightarrow> True | Some y \<Rightarrow> \<not> (lo \<le> y \<and> y \<le> hi)) \<and>
      py_int good = Some x \<and> lo \<le> x \<and> x \<le> hi \<longrightarrow>
      get_int prompt error_msg lo hi w =
        (Inr x,
         w\<lparr>stdin := rest,
            stdout := stdout w @
              concat (map (\<lambda>l. prompt @
                (case py_int l of None \<Rightarrow> ''Please enter a number.'' | Some y \<Rightarrow> error_msg) @
                newline) bad) @ prompt\<rparr>)) \<and>
   ((\<forall>l\<in>set (stdin w). case py_int l of None \<Rightarrow> True | Some y \<Rightarrow> \<not> (lo \<le> y \<and> y \<le> hi)) \<longrightarrow>
      get_int prompt error_msg lo hi w =
        (Inl EOFError,
         w\<lparr>stdin := [],
            stdout := stdout w @
              concat (map (\<lambda>l. prompt @
                (case py_int l of None \<Rightarrow> ''Please enter a number.'' | Some y \<Rightarrow> error_msg) @
                newline) (stdin w)) @ prompt\<rparr>))"
proof (intro conjI allI impI)
  fix x w'
  assume "get_int prompt error_msg lo hi w = (Inr x, w')"
  then show "lo \<le> x" and "x \<le> hi"
    using get_int_in_range by blast+
next
  fix bad good rest x
  assume a: "stdin w = bad @ good # rest \<and>
      (\<forall>l\<in>set bad. case py_int l of None \<Rightarrow> True | Some y \<Rightarrow> \<not> (lo \<le> y \<and> y \<le> hi)) \<and>
      py_int good = Some x \<and> lo \<le> x \<and> x \<le> hi"
  show "get_int prompt error_msg lo hi w =
        (Inr x,
         w\<lparr>stdin := rest,
            stdout := stdout w @
              concat (map (\<lambda>l. prompt @
                (case py_int l of None \<Rightarrow> ''Please enter a number.'' | Some y \<Rightarrow> error_msg) @
                newline) bad) @ prompt\<rparr>)"
  proof (rule get_int_script)
    show "stdin w = bad @ good # rest" using a by blast
    show "\<forall>l\<in>set bad. case py_int l of None \<Rightarrow> True | Some y \<Rightarrow> \<not> (lo \<le> y \<and> y \<le> hi)"
      using a by blast
    show "py_int good = Some x" using a by blast
    show "lo \<le> x" using a by blast
    show "x \<le> hi" using a by blast
  qed
next
  assume "\<forall>l\<in>set (stdin w). case py_int l of None \<Rightarrow> True | Some y \<Rightarrow> \<not> (lo \<le> y \<and> y \<le> hi)"
  then show "get_int prompt error_msg lo hi w =
        (Inl EOFError,
         w\<lparr>stdin := [],
            stdout := stdout w @
              concat (map (\<lambda>l. prompt @
                (case py_int l of None \<Rightarrow> ''Please enter a number.'' | Some y \<Rightarrow> error_msg) @
                newline) (stdin w)) @ prompt\<rparr>)"
    by (rule get_int_exhausted)
qed

theorem get_int_returns_first_valid_witness:
  "fst (get_int ''> '' ''Invalid page number'' 1 10
          (session_start [''abc'', ''11'', '' 7 '', ''3''] :: unit world)) = Inr 7 \<and>
   stdin (snd (get_int ''> '' ''Invalid page number'' 1 10
          (session_start [''abc'', ''11'', '' 7 '', ''3''] :: unit world))) = [''3''] \<and>
   stdout (snd (get_int ''> '' ''Invalid page number'' 1 10
          (session_start [''abc'', ''11'', '' 7 '', ''3''] :: unit world))) =
     ''> Please enter a number.'' @ newline @ ''> Invalid page number'' @ newline @ ''> ''"
proof -
  have e1: "py_int ''abc'' = None"
    by (simp add: py_int_def int_space_def is_digit_def code_point_def)
  have e2: "py_int ''11'' = Some 11"
    by (simp add: py_int_def int_space_def is_digit_def digit_value_def code_point_def)
  have e3: "py_int '' 7 '' = Some 7"
    by (simp add: py_int_def int_space_def is_digit_def digit_value_def code_point_def)
  show ?thesis
    using get_int_returns_first_valid
            [of "''> ''" "''Invalid page number''" 1 10
                "session_start [''abc'', ''11'', '' 7 '', ''3''] :: unit world",
             THEN conjunct2, THEN conjunct1, rule_format,
             of "[''abc'', ''11'']" "'' 7 ''" "[''3'']" 7]
    by (simp add: e1 e2 e3 session_start_def)
qed

section \<open>The file-name validator\<close>

text \<open>
  C1. \<^verbatim>\<open>get_file_name\<close> reads one line and no more: the prompt is written once, the
  line is taken from standard input, and the stripped line is returned whatever the checks
  say; the message of the first check that fails, if one does, is printed after the
  prompt. The stripped line is the line without the whitespace around it.
\<close>

theorem get_file_name_reads_one_line:
  assumes "stdin w = line # rest"
  shows "get_file_name prompt error_msg allow_hidden w =
           (Inr (strip line),
            w\<lparr>stdout := stdout w @ prompt @
                  (case snd (check_file_name allow_hidden (strip line)) of
                     None \<Rightarrow> [] | Some msg \<Rightarrow> msg @ newline),
               stdin := rest\<rparr>) \<and>
         (\<exists>a b. line = a @ strip line @ b \<and> (\<forall>c\<in>set a. isspace c) \<and> (\<forall>c\<in>set b. isspace c)) \<and>
         (strip line \<noteq> [] \<longrightarrow> \<not> isspace (hd (strip line)) \<and> \<not> isspace (last (strip line)))"
  using get_file_name_line [OF assms] strip_parts [of line] strip_ends [of line] by blast

theorem get_file_name_reads_one_line_witness:
  "fst (get_file_name ''> '' ''Invalid file name'' False
          (session_start [''  a/b '', ''x''] :: unit world)) = Inr ''a/b'' \<and>
   stdin (snd (get_file_name ''> '' ''Invalid file name'' False
          (session_start [''  a/b '', ''x''] :: unit world))) = [''x''] \<and>
   stdout (snd (get_file_name ''> '' ''Invalid file name'' False
          (session_start [''  a/b '', ''x''] :: unit world))) =
     ''> File name cannot contain any of these characters: '' @ forbidden_chars @ newline"
proof -
  have s: "strip ''  a/b '' = ''a/b''"
    by (simp add: strip_def isspace_def code_point_def)
  have c: "snd (check_file_name False ''a/b'') =
             Some (''File name cannot contain any of these characters: '' @ forbidden_chars)"
    by (simp add: check_file_name_def forbidden_chars_def)
  have i: "stdin (session_start [''  a/b '', ''x''] :: unit world) = ''  a/b '' # [''x'']"
    by (simp add: session_start_def)
  show ?thesis
    using get_file_name_reads_one_line [OF i, of "''> ''" "''Invalid file name''" False]
    by (simp add: s c session_start_def)
qed

text \<open>
  C7. The flag \<^verbatim>\<open>done\<close> is set exactly for the names that are not empty, hold none of
  the nine forbidden characters, do not start with a dot unless hidden names are allowed,
  are at most 255 long and hold a letter or a digit. A name with a forbidden character is
  never accepted. Each message belongs to one check and is printed only when every check
  before it has passed, which is the order of the checks.
\<close>

theorem check_file_name_accepts:
  "(fst (check_file_name allow_hidden nm) \<longleftrightarrow>
      nm \<noteq> [] \<and> (\<forall>c\<in>set nm. c \<notin> set forbidden_chars) \<and>
      (allow_hidden \<or> \<not> startswith nm ''.'') \<and> length nm \<le> 255 \<and> (\<exists>c\<in>set nm. isalnum c)) \<and>
   ((\<exists>c\<in>set nm. c \<in> set forbidden_chars) \<longrightarrow> \<not> fst (check_file_name allow_hidden nm)) \<and>
   set forbidden_chars =
     {CHR ''<'', CHR ''>'', CHR '':'', CHR 0x22, CHR ''/'', CHR 0x5C, CHR ''|'', CHR ''?'', CHR ''*''} \<and>
   (fst (check_file_name allow_hidden nm) \<longleftrightarrow> snd (check_file_name allow_hidden nm) = None) \<and>
   (snd (check_file_name allow_hidden nm) = Some ''File name cannot be empty.'' \<longleftrightarrow> nm = []) \<and>
   (snd (check_file_name allow_hidden nm) =
      Some (''File name cannot contain any of these characters: '' @ forbidden_chars) \<longleftrightarrow>
      nm \<noteq> [] \<and> (\<exists>c\<in>set nm. c \<in> set forbidden_chars)) \<and>
   (snd (check_file_name allow_hidden nm) = Some ''File name cannot start with a dot.'' \<longleftrightarrow>
      nm \<noteq> [] \<and> (\<forall>c\<in>set nm. c \<notin> set forbidden_chars) \<and> \<not> allow_hidden \<and> startswith nm ''.'') \<and>
   (snd (check_file_name allow_hidden nm) =
      Some ''File name is too long. Maximum length is 255 characters.'' \<longleftrightarrow>
      nm \<noteq> [] \<and> (\<forall>c\<in>set nm. c \<notin> set forbidden_chars) \<and>
      (allow_hidden \<or> \<not> startswith nm ''.'') \<and> length nm > 255) \<and>
   (snd (check_file_name allow_hidden nm) =
      Some ''File name must contain at least one letter or number.'' \<longleftrightarrow>
      nm \<noteq> [] \<and> (\<forall>c\<in>set nm. c \<notin> set forbidden_chars) \<and>
      (allow_hidden \<or> \<not> startswith nm ''.'') \<and> length nm \<le> 255 \<and> \<not> (\<exists>c\<in>set nm. isalnum c))"
proof -
  have f: "set forbidden_chars =
     {CHR ''<'', CHR ''>'', CHR '':'', CHR 0x22, CHR ''/'', CHR 0x5C, CHR ''|'', CHR ''?'', CHR ''*''}"
    by (simp add: forbidden_chars_def)
  show ?thesis
    unfolding check_file_name_def by (simp add: f)
qed

theorem check_file_name_accepts_witness:
  "\<not> fst (check_file_name False ''a/b'') \<and>
   fst (check_file_name False ''report'') \<and>
   snd (check_file_name False ''.hidden'') = Some ''File name cannot start with a dot.'' \<and>
   fst (check_file_name True ''.hidden'')"
  using check_file_name_accepts [of False "''a/b''"]
        check_file_name_accepts [of False "''report''"]
        check_file_name_accepts [of False "''.hidden''"]
        check_file_name_accepts [of True "''.hidden''"]
  by (simp add: forbidden_chars_def isalnum_def code_point_def startswith_def)

section \<open>The page sequence of an output\<close>

lemma pages_yields:
  "fst (pages self) = [current_page self..snd (page_interval self)]"
proof (induction self rule: pages.induct)
  case (1 self)
  show ?case
  proof (cases "current_page self \<le> snd (page_interval self)")
    case True
    with "1.IH" show ?thesis
      by (subst pages.simps) (simp add: split_beta upto_rec1 [of "current_page self"])
  next
    case False
    then show ?thesis by (subst pages.simps) simp
  qed
qed

lemma pages_leaves:
  "snd (pages self) =
     self\<lparr>current_page := max (current_page self) (snd (page_interval self) + 1)\<rparr>"
proof (induction self rule: pages.induct)
  case (1 self)
  show ?case
  proof (cases "current_page self \<le> snd (page_interval self)")
    case True
    with "1.IH" show ?thesis
      by (subst pages.simps) (simp add: split_beta max_def)
  next
    case False
    then show ?thesis by (subst pages.simps) (simp add: max_def)
  qed
qed

lemma upto_as_offsets:
  "[i..j] = map (\<lambda>k. i + int k) [0..<nat (j - i + 1)]"
proof (rule nth_equalityI)
  show "length [i..j] = length (map (\<lambda>k. i + int k) [0..<nat (j - i + 1)])" by simp
next
  fix n assume "n < length [i..j]"
  then show "[i..j] ! n = map (\<lambda>k. i + int k) [0..<nat (j - i + 1)] ! n"
    by (simp add: nth_upto)
qed

lemma OutputFile_init_object:
  assumes "OutputFile_init path nm interval w = (Inr r, w')"
  shows "heap w' r = \<lparr>name = nm, page_interval = interval, current_page = fst interval,
                       stream = FileObject (os_path_join path nm) [] (Buffered 0)\<rparr>"
    and "r = next_ref w" and "next_ref w' = Suc r"
    and "opened w' = opened w @ [os_path_join path nm]"
    and "\<And>q. q \<noteq> r \<Longrightarrow> heap w' q = heap w q"
    and "stdin w' = stdin w" and "stdout w' = stdout w"
    and "open_fault w' = open_fault w" and "write_fault w' = write_fault w"
    and "open_fault w (os_path_join path nm) = None"
    and "buffer_size w' = buffer_size w" and "serialized_size w' = serialized_size w"
  using assms by (auto simp: OutputFile_init_def Let_def split: option.splits)

text \<open>
  C3. The page numbers a new \<open>OutputFile\<close> yields are the integers from the first to
  the last page of its interval, in ascending order, as many as the interval is long; the
  cursor is left behind the interval, so a second run over the same object yields nothing.
  The bounds 1 and \<^verbatim>\<open>page_count\<close> play no part in this.
\<close>

theorem pages_of_new_OutputFile:
  assumes "OutputFile_init path nm (start, stop) w = (Inr r, w')"
  shows "fst (pages (heap w' r)) = [start..stop] \<and>
         fst (pages (heap w' r)) = map (\<lambda>k. start + int k) [0..<nat (stop - start + 1)] \<and>
         length (fst (pages (heap w' r))) = nat (stop - start + 1) \<and>
         current_page (snd (pages (heap w' r))) = max start (stop + 1) \<and>
         fst (pages (snd (pages (heap w' r)))) = []"
proof -
  have h: "current_page (heap w' r) = start" "page_interval (heap w' r) = (start, stop)"
    using OutputFile_init_object(1) [OF assms] by simp_all
  have 1: "fst (pages (heap w' r)) = [start..stop]"
    using pages_yields [of "heap w' r"] h by simp
  have 2: "current_page (snd (pages (heap w' r))) = max start (stop + 1)"
    using pages_leaves [of "heap w' r"] h by simp
  have 3: "fst (pages (snd (pages (heap w' r)))) = []"
    using pages_yields [of "snd (pages (heap w' r))"] 2 pages_leaves [of "heap w' r"] h by simp
  show ?thesis
    using 1 2 3 upto_as_offsets [of start stop] by simp
qed

theorem pages_of_new_OutputFile_witness:
  "fst (pages (heap (snd (OutputFile_init ''dir'' ''a.pdf'' (3, 6) (session_start [] :: unit world))) 0))
     = [3, 4, 5, 6] \<and>
   fst (pages (snd (pages
     (heap (snd (OutputFile_init ''dir'' ''a.pdf'' (3, 6) (session_start [] :: unit world))) 0)))) = []"
proof -
  have i: "OutputFile_init ''dir'' ''a.pdf'' (3, 6) (session_start [] :: unit world) =
             (Inr 0, snd (OutputFile_init ''dir'' ''a.pdf'' (3, 6) (session_start [] :: unit world)))"
    by (simp add: OutputFile_init_def session_start_def Let_def)
  have u: "[3..6] = [3, 4, 5, 6 :: int]" by (simp add: upto_rec1)
  show ?thesis
    using pages_of_new_OutputFile [OF i] u by simp
qed

section \<open>The scanner\<close>

lemma list_pdf_files_missing:
  "fs p = None \<Longrightarrow> list_pdf_files fs p = Inr None"
  by (simp add: list_pdf_files_def os_path_exists_def)

lemma list_pdf_files_directory:
  "fs p = Some (Directory entries) \<Longrightarrow>
   list_pdf_files fs p = Inr (Some (filter (\<lambda>file. endswith (lower file) ''.pdf'') entries))"
  by (simp add: list_pdf_files_def os_path_exists_def os_listdir_def)

lemma list_pdf_files_not_directory:
  "fs p = Some RegularFile \<Longrightarrow> list_pdf_files fs p = Inl NotADirectoryError"
  by (simp add: list_pdf_files_def os_path_exists_def os_listdir_def)

text \<open>
  C4. A path that names nothing gives \<^verbatim>\<open>None\<close>, and a directory gives its entries that
  end in \<^verbatim>\<open>.pdf\<close> when lowered. A path that exists and is not a directory passes
  \<^verbatim>\<open>os.path.exists\<close> and makes \<^verbatim>\<open>os.listdir\<close> raise \<^verbatim>\<open>NotADirectoryError\<close>: it is
  told apart from a missing path, against the docstring (\<^verbatim>\<open>None\<close> if the directory does
  not exist). The scanner run where \<^verbatim>\<open>notes.txt\<close> is a file, \<^verbatim>\<open>docs\<close> a directory and
  nothing else exists:
\<close>

theorem list_pdf_files_on_regular_file:
  "list_pdf_files
     (\<lambda>p. if p = ''notes.txt'' then Some RegularFile
          else if p = ''docs'' then Some (Directory [''a.PDF'', ''b.txt'', ''c.pdf'']) else None)
     ''notes.txt'' = Inl NotADirectoryError \<and>
   list_pdf_files
     (\<lambda>p. if p = ''notes.txt'' then Some RegularFile
          else if p = ''docs'' then Some (Directory [''a.PDF'', ''b.txt'', ''c.pdf'']) else None)
     ''nowhere'' = Inr None \<and>
   list_pdf_files
     (\<lambda>p. if p = ''notes.txt'' then Some RegularFile
          else if p = ''docs'' then Some (Directory [''a.PDF'', ''b.txt'', ''c.pdf'']) else None)
     ''docs'' = Inr (Some [''a.PDF'', ''c.pdf''])"
  by (simp add: list_pdf_files_def os_path_exists_def os_listdir_def endswith_def lower_def
        lower_char_def code_point_def char_of_def bit_0)

section \<open>Generation\<close>

lemma getPage_in_range:
  "1 \<le> k \<Longrightarrow> k \<le> int (length reader) \<Longrightarrow> getPage reader (k - 1) = Inr (reader ! nat (k - 1))"
  by (simp add: getPage_def Let_def)

lemma copy_pages_in_range:
  assumes "1 \<le> current_page self" and "snd (page_interval self) \<le> int (length reader)"
  shows "copy_pages reader self writer =
           (Inr (writer @ map (\<lambda>k. reader ! nat (k - 1))
                           [current_page self..snd (page_interval self)]),
            self\<lparr>current_page := max (current_page self) (snd (page_interval self) + 1)\<rparr>)"
  using assms
proof (induction reader self writer rule: copy_pages.induct)
  case (1 reader self writer)
  show ?case
  proof (cases "current_page self \<le> snd (page_interval self)")
    case True
    have g: "getPage reader (current_page self - 1) = Inr (reader ! nat (current_page self - 1))"
      using True "1.prems" by (intro getPage_in_range) simp_all
    show ?thesis
      using "1.IH" [OF True g] "1.prems" True
      by (subst copy_pages.simps) (simp add: g upto_rec1 [of "current_page self"] max_def)
  next
    case False
    then show ?thesis by (subst copy_pages.simps) (simp add: max_def)
  qed
qed

text \<open>Whatever happens, the copy loop changes nothing of the object but its cursor.\<close>

lemma copy_pages_cursor_only:
  "\<exists>c. snd (copy_pages reader self writer) = self\<lparr>current_page := c\<rparr>"
proof (induction reader self writer rule: copy_pages.induct)
  case (1 reader self writer)
  show ?case
  proof (cases "current_page self \<le> snd (page_interval self)")
    case True
    show ?thesis
    proof (cases "getPage reader (current_page self - 1)")
      case (Inl e)
      with True have "snd (copy_pages reader self writer) = self\<lparr>current_page := current_page self\<rparr>"
        by (subst copy_pages.simps) simp
      then show ?thesis by blast
    next
      case (Inr page)
      from "1.IH" [OF True Inr] obtain c where
        "snd (copy_pages reader (self\<lparr>current_page := current_page self + 1\<rparr>) (writer @ [page]))
           = self\<lparr>current_page := c\<rparr>" by auto
      with True Inr have "snd (copy_pages reader self writer) = self\<lparr>current_page := c\<rparr>"
        by (subst copy_pages.simps) simp
      then show ?thesis by blast
    qed
  next
    case False
    then have "snd (copy_pages reader self writer) = self\<lparr>current_page := current_page self\<rparr>"
      by (subst copy_pages.simps) simp
    then show ?thesis by blast
  qed
qed

lemma copy_pages_planned:
  assumes "planned reader self"
  shows "copy_pages reader self [] =
           (Inr (plan_document reader self), self\<lparr>current_page := snd (page_interval self) + 1\<rparr>)"
  using copy_pages_in_range [of self reader "[]"] assms
  by (simp add: planned_def plan_document_def max_def)

text \<open>What the buffered write does depends on the world only through its environment.\<close>

lemma written_env:
  "serialized_size v = serialized_size w \<Longrightarrow> buffer_size v = buffer_size w \<Longrightarrow>
   written v f doc = written w f doc"
  by (simp add: written_def split: buffer_state.splits)

lemma stream_write_env:
  "serialized_size v = serialized_size w \<Longrightarrow> buffer_size v = buffer_size w \<Longrightarrow>
   write_fault v = write_fault w \<Longrightarrow> stream_write v f doc = stream_write w f doc"
  by (simp add: stream_write_def written_env [of v w] split: buffer_state.splits option.splits)

lemma generated_env:
  "serialized_size v = serialized_size w \<Longrightarrow> buffer_size v = buffer_size w \<Longrightarrow>
   generated v reader self = generated w reader self"
  by (simp add: generated_def written_env [of v w])

lemma stream_write_returns:
  "stream_write w f doc = Inr g \<Longrightarrow> g = written w f doc"
  by (auto simp: stream_write_def split: buffer_state.splits if_splits option.splits)

text \<open>A device that takes bytes never makes the write raise.\<close>

lemma stream_write_device_good:
  "write_fault w (stream_path f) = None \<Longrightarrow> stream_write w f doc = Inr (written w f doc)"
  by (simp add: stream_write_def split: buffer_state.splits)

text \<open>
  The write raises only when the device takes no bytes and the document does not fit the
  buffer with what waits there.
\<close>

lemma stream_write_raises:
  "stream_write w f doc = Inl e \<longleftrightarrow>
     (\<exists>k. stream_buffer f = Buffered k \<and>
          buffer_size w (stream_path f) < k + serialized_size w doc \<and>
          write_fault w (stream_path f) = Some e)"
  by (auto simp: stream_write_def split: buffer_state.splits option.splits)

lemma write_after_copy:
  assumes "stream_write w (stream (heap w r)) (plan_document reader (heap w r)) = Inr g"
  shows "PdfFileWriter_write (plan_document reader (heap w r)) r
           (w\<lparr>heap := (heap w)(r := (heap w r)\<lparr>current_page := snd (page_interval (heap w r)) + 1\<rparr>)\<rparr>)
         = (Inr (), w\<lparr>heap := (heap w)(r := generated w reader (heap w r))\<rparr>)"
proof -
  let ?w1 = "w\<lparr>heap := (heap w)(r := (heap w r)\<lparr>current_page := snd (page_interval (heap w r)) + 1\<rparr>)\<rparr>"
  have "stream_write ?w1 (stream (heap w r)) (plan_document reader (heap w r)) =
        stream_write w (stream (heap w r)) (plan_document reader (heap w r))"
    by (rule stream_write_env) simp_all
  then have "stream_write ?w1 (stream (heap w r)) (plan_document reader (heap w r)) =
        Inr (written w (stream (heap w r)) (plan_document reader (heap w r)))"
    using assms stream_write_returns [OF assms] by simp
  then show ?thesis
    by (simp add: PdfFileWriter_write_def generated_def Let_def)
qed

lemma generate_step_planned:
  assumes "planned reader (heap w r)"
    and "stream_write w (stream (heap w r)) (plan_document reader (heap w r)) = Inr g"
  shows "generate_output_files reader (r # rs) cb w =
           (case cb r (w\<lparr>heap := (heap w)(r := generated w reader (heap w r))\<rparr>) of
              (Inl e, w1) \<Rightarrow> (Inl e, w1)
            | (Inr u, w1) \<Rightarrow> generate_output_files reader rs cb w1)"
  by (simp add: copy_pages_planned [OF assms(1)] write_after_copy [OF assms(2)])

lemma generate_refines:
  assumes "distinct rs"
    and "\<forall>r\<in>set rs. planned reader (heap w r)"
    and "\<forall>r\<in>set rs. write_fault w (stream_path (stream (heap w r))) = None"
    and "\<And>r v. heap (snd (cb r v)) = heap v"
    and "\<And>r v. write_fault (snd (cb r v)) = write_fault v"
  shows "generate_output_files reader rs cb w = spec_generate_output_files reader rs cb w"
  using assms(1-3)
proof (induction rs arbitrary: w)
  case Nil
  show ?case by simp
next
  case (Cons r rs)
  let ?w1 = "w\<lparr>heap := (heap w)(r := generated w reader (heap w r))\<rparr>"
  have "stream_write w (stream (heap w r)) (plan_document reader (heap w r)) =
          Inr (written w (stream (heap w r)) (plan_document reader (heap w r)))"
    using Cons.prems(3) by (intro stream_write_device_good) simp
  then have step: "generate_output_files reader (r # rs) cb w =
           (case cb r ?w1 of
              (Inl e, w2) \<Rightarrow> (Inl e, w2)
            | (Inr u, w2) \<Rightarrow> generate_output_files reader rs cb w2)"
    using Cons.prems(2) by (intro generate_step_planned) simp_all
  obtain res w2 where c: "cb r ?w1 = (res, w2)" by (cases "cb r ?w1")
  have h: "heap w2 = heap ?w1" and f: "write_fault w2 = write_fault ?w1"
    using assms(4) [of r ?w1] assms(5) [of r ?w1] c by simp_all
  have same: "\<forall>q\<in>set rs. heap w2 q = heap w q"
    using Cons.prems(1) h by auto
  show ?case
  proof (cases res)
    case (Inl e)
    with step c show ?thesis by simp
  next
    case (Inr u)
    have "generate_output_files reader rs cb w2 = spec_generate_output_files reader rs cb w2"
    proof (rule Cons.IH)
      show "distinct rs" using Cons.prems(1) by simp
      show "\<forall>q\<in>set rs. planned reader (heap w2 q)" using same Cons.prems(2) by simp
      show "\<forall>q\<in>set rs. write_fault w2 (stream_path (stream (heap w2 q))) = None"
        using same Cons.prems(3) f by simp
    qed
    with step c Inr show ?thesis by simp
  qed
qed

lemma OutputFile_str_generated:
  "OutputFile_str (generated w reader self) = OutputFile_str self"
  by (simp add: OutputFile_str_def generated_def)

text \<open>What the plan looks like after a generation that reports with \<^verbatim>\<open>print\<close>.\<close>

lemma spec_generate_print:
  assumes "distinct rs"
  shows "fst (spec_generate_output_files reader rs print_generated w) = Inr () \<and>
         heap (snd (spec_generate_output_files reader rs print_generated w)) =
           (\<lambda>q. if q \<in> set rs then generated w reader (heap w q) else heap w q) \<and>
         stdout (snd (spec_generate_output_files reader rs print_generated w)) =
           stdout w @ concat (map (\<lambda>r. ''Generated: '' @ OutputFile_str (heap w r) @ newline) rs) \<and>
         stdin (snd (spec_generate_output_files reader rs print_generated w)) = stdin w \<and>
         next_ref (snd (spec_generate_output_files reader rs print_generated w)) = next_ref w \<and>
         opened (snd (spec_generate_output_files reader rs print_generated w)) = opened w \<and>
         open_fault (snd (spec_generate_output_files reader rs print_generated w)) = open_fault w \<and>
         write_fault (snd (spec_generate_output_files reader rs print_generated w)) = write_fault w \<and>
         buffer_size (snd (spec_generate_output_files reader rs print_generated w)) = buffer_size w \<and>
         serialized_size (snd (spec_generate_output_files reader rs print_generated w)) =
           serialized_size w"
  using assms
proof (induction rs arbitrary: w)
  case Nil
  show ?case by simp
next
  case (Cons r rs)
  define w2 where "w2 = py_print (''Generated: '' @ OutputFile_str (generated w reader (heap w r)))
                          (w\<lparr>heap := (heap w)(r := generated w reader (heap w r))\<rparr>)"
  have step: "spec_generate_output_files reader (r # rs) print_generated w =
              spec_generate_output_files reader rs print_generated w2"
    by (simp add: print_generated_def w2_def)
  have d: "distinct rs" and n: "r \<notin> set rs" using Cons.prems by simp_all
  have p: "heap w2 = (heap w)(r := generated w reader (heap w r))"
    "stdout w2 = stdout w @ ''Generated: '' @ OutputFile_str (heap w r) @ newline"
    "stdin w2 = stdin w" "next_ref w2 = next_ref w" "opened w2 = opened w"
    "open_fault w2 = open_fault w" "write_fault w2 = write_fault w"
    "buffer_size w2 = buffer_size w" "serialized_size w2 = serialized_size w"
    by (simp_all add: w2_def py_print_def OutputFile_str_generated)
  have g: "generated w2 reader = generated w reader"
    using generated_env [OF p(9) p(8)] by (simp add: fun_eq_iff)
  have h: "(\<lambda>q. if q \<in> set rs then generated w2 reader (heap w2 q) else heap w2 q) =
        (\<lambda>q. if q \<in> set (r # rs) then generated w reader (heap w q) else heap w q)"
    using n by (auto simp: p(1) g fun_eq_iff)
  have "\<forall>q\<in>set rs. heap w2 q = heap w q" using n by (auto simp: p(1))
  then have m: "map (\<lambda>r. ''Generated: '' @ OutputFile_str (heap w2 r) @ newline) rs =
             map (\<lambda>r. ''Generated: '' @ OutputFile_str (heap w r) @ newline) rs"
    by simp
  note ih = Cons.IH [OF d, of w2]
  show ?case
    unfolding step
  proof (intro conjI)
    show "fst (spec_generate_output_files reader rs print_generated w2) = Inr ()"
      by (rule ih [THEN conjunct1])
    show "heap (snd (spec_generate_output_files reader rs print_generated w2)) =
            (\<lambda>q. if q \<in> set (r # rs) then generated w reader (heap w q) else heap w q)"
      using ih [THEN conjunct2, THEN conjunct1] h by (rule trans)
    show "stdout (snd (spec_generate_output_files reader rs print_generated w2)) =
            stdout w @ concat (map (\<lambda>r. ''Generated: '' @ OutputFile_str (heap w r) @ newline) (r # rs))"
      using ih [THEN conjunct2, THEN conjunct2, THEN conjunct1, unfolded m p(2)] by simp
    show "stdin (snd (spec_generate_output_files reader rs print_generated w2)) = stdin w"
      using ih p(3) by simp
    show "next_ref (snd (spec_generate_output_files reader rs print_generated w2)) = next_ref w"
      using ih p(4) by simp
    show "opened (snd (spec_generate_output_files reader rs print_generated w2)) = opened w"
      using ih p(5) by simp
    show "open_fault (snd (spec_generate_output_files reader rs print_generated w2)) = open_fault w"
      using ih p(6) by simp
    show "write_fault (snd (spec_generate_output_files reader rs print_generated w2)) = write_fault w"
      using ih p(7) by simp
    show "buffer_size (snd (spec_generate_output_files reader rs print_generated w2)) = buffer_size w"
      using ih p(8) by simp
    show "serialized_size (snd (spec_generate_output_files reader rs print_generated w2)) =
            serialized_size w"
      using ih p(9) by simp
  qed
qed

lemma generate_append:
  "generate_output_files reader (xs @ ys) cb w =
     (case generate_output_files reader xs cb w of
        (Inl e, w1) \<Rightarrow> (Inl e, w1)
      | (Inr u, w1) \<Rightarrow> generate_output_files reader ys cb w1)"
  by (induction xs arbitrary: w) (auto split: prod.splits sum.splits)

lemma generate_failing_head:
  assumes "fst (copy_pages reader (heap w r) []) = Inl e \<or>
           (\<exists>doc. fst (copy_pages reader (heap w r) []) = Inr doc \<and>
                  stream_write w (stream (heap w r)) doc = Inl e)"
  shows "\<exists>c. generate_output_files reader (r # later) cb w =
              (Inl e, w\<lparr>heap := (heap w)(r := (heap w r)\<lparr>current_page := c\<rparr>)\<rparr>)"
proof -
  obtain c where c: "snd (copy_pages reader (heap w r) []) = (heap w r)\<lparr>current_page := c\<rparr>"
    using copy_pages_cursor_only by blast
  obtain res where r: "copy_pages reader (heap w r) [] = (res, (heap w r)\<lparr>current_page := c\<rparr>)"
    using c by (cases "copy_pages reader (heap w r) []") simp
  have env: "\<And>doc. stream_write (w\<lparr>heap := (heap w)(r := (heap w r)\<lparr>current_page := c\<rparr>)\<rparr>)
                 (stream (heap w r)) doc = stream_write w (stream (heap w r)) doc"
    by (rule stream_write_env) simp_all
  from assms r have "generate_output_files reader (r # later) cb w =
              (Inl e, w\<lparr>heap := (heap w)(r := (heap w r)\<lparr>current_page := c\<rparr>)\<rparr>)"
    by (auto simp: PdfFileWriter_write_def Let_def env)
  then show ?thesis by blast
qed

lemma two_planned_heap:
  "heap two_planned 0 = \<lparr>name = ''a.pdf'', page_interval = (1, 2), current_page = 1,
                           stream = FileObject ''d/a.pdf'' [] (Buffered 0)\<rparr>"
  "heap two_planned (Suc 0) = \<lparr>name = ''b.pdf'', page_interval = (2, 3), current_page = 2,
                                 stream = FileObject ''d/b.pdf'' [] (Buffered 0)\<rparr>"
  "write_fault two_planned = (\<lambda>p. None)" "stdout two_planned = []"
  "buffer_size two_planned = (\<lambda>p. 8192)"
  "serialized_size two_planned = (\<lambda>doc. 1000 + 4000 * length doc)"
  by (simp_all add: two_planned_def OutputFile_init_def session_start_def Let_def
        os_path_join_def startswith_def endswith_def)

lemma str_int_digits:
  "str_int 1 = ''1''" "str_int 2 = ''2''" "str_int 3 = ''3''"
  by (simp_all add: str_int_def str_nat.simps digit_char_def char_of_def bit_0)

text \<open>
  C5. On a plan of distinct outputs, each as plan collection leaves it and none with a
  failing stream, and with a callback that leaves the outputs alone, the code computes what
  the specification words: in plan order, the pages of the interval in ascending order are
  put into a new document, the document is written to the stream of the output, and the
  callback is invoked on the world in which that document is written and no later output
  has been touched.
\<close>

theorem generate_output_files_in_plan_order:
  assumes "distinct output_files"
    and "\<forall>r\<in>set output_files. planned reader (heap w r)"
    and "\<forall>r\<in>set output_files. write_fault w (stream_path (stream (heap w r))) = None"
    and "\<forall>r v. heap (snd (generated_callback r v)) = heap v \<and>
               write_fault (snd (generated_callback r v)) = write_fault v"
  shows "generate_output_files reader output_files generated_callback w =
         spec_generate_output_files reader output_files generated_callback w"
  using assms by (intro generate_refines) simp_all

theorem generate_output_files_in_plan_order_witness:
  "stdout (snd (generate_output_files [10, 20, 30] [0, 1] print_generated two_planned)) =
     ''Generated: a.pdf (1-2)'' @ newline @ ''Generated: b.pdf (2-3)'' @ newline \<and>
   stream (heap (snd (generate_output_files [10, 20, 30] [0, 1] print_generated two_planned)) 0) =
     FileObject ''d/a.pdf'' [[10, 20]] OnDevice \<and>
   stream (heap (snd (generate_output_files [10, 20, 30] [0, 1] print_generated two_planned)) 1) =
     FileObject ''d/b.pdf'' [[20, 30]] OnDevice"
proof -
  have u: "[1..2] = [1, 2 :: int]" "[2..3] = [2, 3 :: int]" by (simp_all add: upto_rec1)
  have "generate_output_files [10, 20, 30] [0, 1] print_generated two_planned =
        spec_generate_output_files [10, 20, 30] [0, 1] print_generated two_planned"
    by (rule generate_output_files_in_plan_order)
       (simp_all add: two_planned_heap planned_def print_generated_def py_print_def)
  then show ?thesis
    by (simp add: two_planned_heap print_generated_def py_print_def generated_def written_def
          plan_document_def OutputFile_str_def str_int_digits u)
qed




lemma print_generated_frame:
  "heap (snd (print_generated r v)) = heap v"
  "write_fault (snd (print_generated r v)) = write_fault v"
  "fst (print_generated r v) = Inr ()"
  "buffer_size (snd (print_generated r v)) = buffer_size v"
  "serialized_size (snd (print_generated r v)) = serialized_size v"
  by (simp_all add: print_generated_def py_print_def)

text \<open>
  With the callback of the driver, a plan in range all of whose writes return is generated
  as the specification says.
\<close>

lemma generate_print_planned:
  assumes "distinct rs"
    and "\<forall>r\<in>set rs. planned reader (heap v r) \<and>
           stream_write v (stream (heap v r)) (plan_document reader (heap v r)) =
             Inr (written v (stream (heap v r)) (plan_document reader (heap v r)))"
  shows "generate_output_files reader rs print_generated v =
         spec_generate_output_files reader rs print_generated v"
  using assms
proof (induction rs arbitrary: v)
  case Nil
  show ?case by simp
next
  case (Cons r rs)
  define w2 where
    "w2 = snd (print_generated r (v\<lparr>heap := (heap v)(r := generated v reader (heap v r))\<rparr>))"
  have c: "print_generated r (v\<lparr>heap := (heap v)(r := generated v reader (heap v r))\<rparr>) =
             (Inr (), w2)"
    by (simp add: w2_def print_generated_def)
  have f: "heap w2 = (heap v)(r := generated v reader (heap v r))"
    "write_fault w2 = write_fault v" "buffer_size w2 = buffer_size v"
    "serialized_size w2 = serialized_size v"
    by (simp_all add: w2_def print_generated_frame)
  have p: "planned reader (heap v r)"
    and s: "stream_write v (stream (heap v r)) (plan_document reader (heap v r)) =
             Inr (written v (stream (heap v r)) (plan_document reader (heap v r)))"
    using Cons.prems(2) by simp_all
  have step: "generate_output_files reader (r # rs) print_generated v =
              generate_output_files reader rs print_generated w2"
    by (simp only: generate_step_planned [OF p s] c prod.case sum.case)
  have spec: "spec_generate_output_files reader (r # rs) print_generated v =
              spec_generate_output_files reader rs print_generated w2"
    by (simp only: spec_generate_output_files.simps c prod.case sum.case)
  have same: "\<forall>q\<in>set rs. heap w2 q = heap v q"
    using Cons.prems(1) by (auto simp: f(1))
  have e: "\<And>g doc. stream_write w2 g doc = stream_write v g doc"
    "\<And>g doc. written w2 g doc = written v g doc"
    by (simp_all add: stream_write_env [OF f(4) f(3) f(2)] written_env [OF f(4) f(3)])
  have "generate_output_files reader rs print_generated w2 =
        spec_generate_output_files reader rs print_generated w2"
  proof (rule Cons.IH)
    show "distinct rs" using Cons.prems(1) by simp
    show "\<forall>q\<in>set rs. planned reader (heap w2 q) \<and>
           stream_write w2 (stream (heap w2 q)) (plan_document reader (heap w2 q)) =
             Inr (written w2 (stream (heap w2 q)) (plan_document reader (heap w2 q)))"
      using same Cons.prems(2) by (simp add: e)
  qed
  then show ?case by (simp only: step spec)
qed

lemma generate_failure_at:
  assumes "distinct (earlier @ r # later)"
    and "\<forall>d\<in>set earlier. planned reader (heap v d) \<and>
           stream_write v (stream (heap v d)) (plan_document reader (heap v d)) =
             Inr (written v (stream (heap v d)) (plan_document reader (heap v d)))"
    and "fst (copy_pages reader (heap v r) []) = Inl e \<or>
         (\<exists>doc. fst (copy_pages reader (heap v r) []) = Inr doc \<and>
                stream_write v (stream (heap v r)) doc = Inl e)"
  shows "\<exists>w'. generate_output_files reader (earlier @ r # later) print_generated v = (Inl e, w') \<and>
              (\<forall>l\<in>set later. heap w' l = heap v l) \<and>
              (\<forall>d\<in>set earlier. heap w' d = generated v reader (heap v d)) \<and>
              stream (heap w' r) = stream (heap v r) \<and>
              stdout w' = stdout v @
                concat (map (\<lambda>d. ''Generated: '' @ OutputFile_str (heap v d) @ newline) earlier)"
proof -
  define w1 where "w1 = snd (spec_generate_output_files reader earlier print_generated v)"
  have d: "distinct earlier" "r \<notin> set earlier" "r \<notin> set later"
    "\<forall>l\<in>set later. l \<notin> set earlier \<and> l \<noteq> r"
    using assms(1) by auto
  note sp = spec_generate_print [OF d(1), of reader v, folded w1_def]
  have g1: "generate_output_files reader earlier print_generated v = (Inr (), w1)"
    using generate_print_planned [OF d(1) assms(2)] sp [THEN conjunct1]
    by (simp add: w1_def prod_eq_iff)
  have h1: "heap w1 = (\<lambda>q. if q \<in> set earlier then generated v reader (heap v q) else heap v q)"
    using sp by blast
  have o1: "stdout w1 = stdout v @
      concat (map (\<lambda>d. ''Generated: '' @ OutputFile_str (heap v d) @ newline) earlier)"
    using sp by blast
  have f1: "write_fault w1 = write_fault v" "buffer_size w1 = buffer_size v"
    "serialized_size w1 = serialized_size v"
    using sp by blast+
  have e1: "\<And>g doc. stream_write w1 g doc = stream_write v g doc"
    by (simp add: stream_write_env [OF f1(3) f1(2) f1(1)])
  have r1: "heap w1 r = heap v r" using d(2) by (simp add: h1)
  have "fst (copy_pages reader (heap w1 r) []) = Inl e \<or>
         (\<exists>doc. fst (copy_pages reader (heap w1 r) []) = Inr doc \<and>
                stream_write w1 (stream (heap w1 r)) doc = Inl e)"
    using assms(3) by (simp add: r1 e1)
  from generate_failing_head [OF this, of later print_generated]
  obtain c where c: "generate_output_files reader (r # later) print_generated w1 =
      (Inl e, w1\<lparr>heap := (heap w1)(r := (heap w1 r)\<lparr>current_page := c\<rparr>)\<rparr>)"
    by blast
  let ?w' = "w1\<lparr>heap := (heap w1)(r := (heap w1 r)\<lparr>current_page := c\<rparr>)\<rparr>"
  have "generate_output_files reader (earlier @ r # later) print_generated v = (Inl e, ?w')"
    by (simp only: generate_append g1 c prod.case sum.case)
  moreover have "\<forall>l\<in>set later. heap ?w' l = heap v l"
    using d(4) by (auto simp: h1)
  moreover have "\<forall>d\<in>set earlier. heap ?w' d = generated v reader (heap v d)"
    using d(2) by (auto simp: h1)
  moreover have "stream (heap ?w' r) = stream (heap v r)"
    by (simp add: r1)
  moreover have "stdout ?w' = stdout v @
      concat (map (\<lambda>d. ''Generated: '' @ OutputFile_str (heap v d) @ newline) earlier)"
    by (simp add: o1)
  ultimately show ?thesis by blast
qed






section \<open>Plan collection\<close>

lemma get_file_name_frame:
  "heap (snd (get_file_name prompt error_msg allow_hidden w)) = heap w \<and>
   next_ref (snd (get_file_name prompt error_msg allow_hidden w)) = next_ref w \<and>
   opened (snd (get_file_name prompt error_msg allow_hidden w)) = opened w \<and>
   open_fault (snd (get_file_name prompt error_msg allow_hidden w)) = open_fault w \<and>
   write_fault (snd (get_file_name prompt error_msg allow_hidden w)) = write_fault w"
proof (cases "stdin w")
  case Nil
  then show ?thesis by (simp add: get_file_name_eof)
next
  case (Cons line rest)
  then show ?thesis by (simp add: get_file_name_line)
qed

lemma collect_targets_round:
  assumes "stdin w = name_line a # first_line a # last_line a # rest"
    and "answered page_count a"
    and "open_fault w (target_path path a) = None"
  shows "\<exists>w6. collect_targets path page_count i (Suc k) targets w =
                collect_targets path page_count (Suc i) k (targets @ [next_ref w]) w6 \<and>
              stdin w6 = rest \<and>
              heap w6 = (heap w)(next_ref w := planned_output path a) \<and>
              next_ref w6 = Suc (next_ref w) \<and>
              opened w6 = opened w @ [target_path path a] \<and>
              open_fault w6 = open_fault w \<and> write_fault w6 = write_fault w"
proof -
  define w2 where "w2 = py_print (''Output file '' @ str_int (int i + 1) @ '':'')
               (py_print ''--------------------------------'' w)"
  have s2: "stdin w2 = name_line a # first_line a # last_line a # rest"
    using assms(1) by (simp add: w2_def py_print_def)
  have f2: "heap w2 = heap w" "next_ref w2 = next_ref w" "opened w2 = opened w"
    "open_fault w2 = open_fault w" "write_fault w2 = write_fault w"
    by (simp_all add: w2_def py_print_def)
  define w3 where
    "w3 = snd (get_file_name (PROMPT_STR @ ''File name: '') ''Invalid file name'' False w2)"
  note l = get_file_name_line [OF s2, of "PROMPT_STR @ ''File name: ''" "''Invalid file name''" False]
  have g3: "get_file_name (PROMPT_STR @ ''File name: '') ''Invalid file name'' False w2 =
              (Inr (strip (name_line a)), w3)"
    and s3: "stdin w3 = first_line a # last_line a # rest"
    by (simp_all add: w3_def l)
  have f3: "heap w3 = heap w" "next_ref w3 = next_ref w" "opened w3 = opened w"
    "open_fault w3 = open_fault w" "write_fault w3 = write_fault w"
    using get_file_name_frame [of "PROMPT_STR @ ''File name: ''" "''Invalid file name''" False w2]
    by (simp_all add: w3_def f2)
  define w4 where "w4 = w3\<lparr>stdin := last_line a # rest,
                   stdout := stdout w3 @ PROMPT_STR @ ''First page: ''\<rparr>"
  have g4: "get_int (PROMPT_STR @ ''First page: '') ''Invalid page number'' 1 page_count w3 =
              (Inr (first_page a), w4)"
    unfolding w4_def using assms(2) by (intro get_int_accept [OF s3]) (simp_all add: answered_def)
  have s4: "stdin w4 = last_line a # rest" by (simp add: w4_def)
  define w5 where "w5 = w4\<lparr>stdin := rest, stdout := stdout w4 @ PROMPT_STR @ ''Last page: ''\<rparr>"
  have g5: "get_int (PROMPT_STR @ ''Last page: '') ''Invalid page number'' (first_page a)
              page_count w4 = (Inr (last_page a), w5)"
    unfolding w5_def using assms(2) by (intro get_int_accept [OF s4]) (simp_all add: answered_def)
  have f5: "heap w5 = heap w" "next_ref w5 = next_ref w" "opened w5 = opened w"
    "open_fault w5 = open_fault w" "write_fault w5 = write_fault w" "stdin w5 = rest"
    using f3 by (simp_all add: w5_def w4_def)
  define w6 where "w6 = w5\<lparr>heap := (heap w5)(next_ref w5 := planned_output path a),
                   next_ref := Suc (next_ref w5),
                   opened := opened w5 @ [target_path path a]\<rparr>"
  have g6: "OutputFile_init path (strip (name_line a) @ ''.pdf'') (first_page a, last_page a) w5 =
              (Inr (next_ref w5), w6)"
    using assms(3) f5(4)
    by (simp add: w6_def OutputFile_init_def Let_def planned_output_def target_path_def)
  have "collect_targets path page_count i (Suc k) targets w =
        collect_targets path page_count (Suc i) k (targets @ [next_ref w5]) w6"
    by (simp only: collect_targets.simps Let_def w2_def [symmetric] g3 g4 g5 g6 prod.case sum.case)
  then show ?thesis
    using f5 by (intro exI [of _ w6]) (simp add: w6_def)
qed

lemma collect_targets_script:
  assumes "stdin w = concat (map answer_lines answers) @ rest"
    and "\<forall>a\<in>set answers. answered page_count a \<and> open_fault w (target_path path a) = None"
  shows "fst (collect_targets path page_count i (length answers) targets w) =
           Inr (targets @ [next_ref w..<next_ref w + length answers]) \<and>
         (\<forall>j<length answers.
            heap (snd (collect_targets path page_count i (length answers) targets w))
              (next_ref w + j) = planned_output path (answers ! j)) \<and>
         (\<forall>q<next_ref w.
            heap (snd (collect_targets path page_count i (length answers) targets w)) q = heap w q) \<and>
         next_ref (snd (collect_targets path page_count i (length answers) targets w)) =
           next_ref w + length answers \<and>
         opened (snd (collect_targets path page_count i (length answers) targets w)) =
           opened w @ map (target_path path) answers \<and>
         stdin (snd (collect_targets path page_count i (length answers) targets w)) = rest \<and>
         open_fault (snd (collect_targets path page_count i (length answers) targets w)) =
           open_fault w \<and>
         write_fault (snd (collect_targets path page_count i (length answers) targets w)) =
           write_fault w"
  using assms
proof (induction answers arbitrary: i targets w)
  case Nil
  then show ?case by simp
next
  case (Cons a answers)
  have s: "stdin w = name_line a # first_line a # last_line a #
             (concat (map answer_lines answers) @ rest)"
    using Cons.prems(1) by (simp add: answer_lines_def [of a])
  from collect_targets_round [OF s, of page_count path i "length answers" targets] Cons.prems(2)
  obtain w6 where w6:
    "collect_targets path page_count i (Suc (length answers)) targets w =
       collect_targets path page_count (Suc i) (length answers) (targets @ [next_ref w]) w6"
    "stdin w6 = concat (map answer_lines answers) @ rest"
    "heap w6 = (heap w)(next_ref w := planned_output path a)"
    "next_ref w6 = Suc (next_ref w)"
    "opened w6 = opened w @ [target_path path a]"
    "open_fault w6 = open_fault w" "write_fault w6 = write_fault w"
    by auto
  have "\<forall>a\<in>set answers. answered page_count a \<and> open_fault w6 (target_path path a) = None"
    using Cons.prems(2) w6(6) by simp
  note ih = Cons.IH [OF w6(2) this, of "Suc i" "targets @ [next_ref w]"]
  let ?r = "collect_targets path page_count (Suc i) (length answers) (targets @ [next_ref w]) w6"
  have e: "collect_targets path page_count i (length (a # answers)) targets w = ?r"
    using w6(1) by simp
  have 1: "fst ?r = Inr (targets @ [next_ref w..<next_ref w + length (a # answers)])"
  proof -
    have lt: "next_ref w < next_ref w + length (a # answers)" by simp
    have eq: "next_ref w + length (a # answers) = next_ref w6 + length answers"
      by (simp add: w6(4))
    have x: "[next_ref w..<next_ref w + length (a # answers)] =
          next_ref w # [next_ref w6..<next_ref w6 + length answers]"
      using upt_conv_Cons [OF lt] unfolding eq w6(4) [symmetric] .
    show ?thesis
      unfolding x using ih [THEN conjunct1] by (simp only: append_assoc append_Cons append_Nil)
  qed
  have 2: "\<forall>j<length (a # answers). heap (snd ?r) (next_ref w + j) = planned_output path ((a # answers) ! j)"
  proof (intro allI impI)
    fix j assume j: "j < length (a # answers)"
    show "heap (snd ?r) (next_ref w + j) = planned_output path ((a # answers) ! j)"
    proof (cases j)
      case 0
      have "heap (snd ?r) (next_ref w) = heap w6 (next_ref w)"
        using ih [THEN conjunct2, THEN conjunct2, THEN conjunct1] by (simp add: w6(4))
      then show ?thesis using 0 by (simp add: w6(3))
    next
      case (Suc m)
      then have "m < length answers" using j by simp
      then have "heap (snd ?r) (next_ref w6 + m) = planned_output path (answers ! m)"
        using ih [THEN conjunct2, THEN conjunct1] by blast
      then show ?thesis using Suc by (simp add: w6(4))
    qed
  qed
  have 3: "\<forall>q<next_ref w. heap (snd ?r) q = heap w q"
  proof (intro allI impI)
    fix q assume q: "q < next_ref w"
    then have "heap (snd ?r) q = heap w6 q"
      using ih [THEN conjunct2, THEN conjunct2, THEN conjunct1] by (simp add: w6(4))
    then show "heap (snd ?r) q = heap w q" using q by (simp add: w6(3))
  qed
  have 4: "next_ref (snd ?r) = next_ref w + length (a # answers)"
    "opened (snd ?r) = opened w @ map (target_path path) (a # answers)"
    "stdin (snd ?r) = rest" "open_fault (snd ?r) = open_fault w"
    "write_fault (snd ?r) = write_fault w"
    using ih by (simp_all add: w6)
  show ?case
    unfolding e using 1 2 3 4 by blast
qed

lemma get_output_files_script:
  assumes "stdin w = count_line # concat (map answer_lines answers) @ rest"
    and "py_int count_line = Some (int (length answers))"
    and "1 \<le> length answers" and "length answers \<le> 100"
    and "\<forall>a\<in>set answers. answered page_count a \<and> open_fault w (target_path path a) = None"
  shows "fst (get_output_files path page_count w) = Inr [next_ref w..<next_ref w + length answers] \<and>
         (\<forall>j<length answers.
            heap (snd (get_output_files path page_count w)) (next_ref w + j) =
              planned_output path (answers ! j)) \<and>
         (\<forall>q<next_ref w. heap (snd (get_output_files path page_count w)) q = heap w q) \<and>
         next_ref (snd (get_output_files path page_count w)) = next_ref w + length answers \<and>
         opened (snd (get_output_files path page_count w)) =
           opened w @ map (target_path path) answers \<and>
         stdin (snd (get_output_files path page_count w)) = rest \<and>
         open_fault (snd (get_output_files path page_count w)) = open_fault w \<and>
         write_fault (snd (get_output_files path page_count w)) = write_fault w"
proof -
  define w1 where "w1 = py_print (newline @ ''How many output files do you want to create?'') w"
  have s1: "stdin w1 = count_line # (concat (map answer_lines answers) @ rest)"
    using assms(1) by (simp add: w1_def py_print_def)
  define w2 where "w2 = w1\<lparr>stdin := concat (map answer_lines answers) @ rest,
                           stdout := stdout w1 @ PROMPT_STR\<rparr>"
  have g: "get_int PROMPT_STR ''Please enter a number between 1 and 100'' 1 100 w1 =
             (Inr (int (length answers)), w2)"
    unfolding w2_def using assms(2-4) by (intro get_int_accept [OF s1]) simp_all
  have f2: "stdin w2 = concat (map answer_lines answers) @ rest" "heap w2 = heap w"
    "next_ref w2 = next_ref w" "opened w2 = opened w" "open_fault w2 = open_fault w"
    "write_fault w2 = write_fault w"
    by (simp_all add: w2_def w1_def py_print_def)
  have e: "get_output_files path page_count w =
           collect_targets path page_count 0 (length answers) [] w2"
    by (simp only: get_output_files_def Let_def w1_def [symmetric] g prod.case sum.case nat_int)
  have "\<forall>a\<in>set answers. answered page_count a \<and> open_fault w2 (target_path path a) = None"
    using assms(5) f2(5) by simp
  note c = collect_targets_script [OF f2(1) this, of 0 "[]", unfolded f2(2-6) append_Nil]
  show ?thesis
    unfolding e by (rule c)
qed

text \<open>
  C10. Let the user type the number of outputs and then, for each output, a line for the
  name and two page lines that are accepted at the first try, and let every destination be
  openable. Nothing is asked of the name lines. Then \<^verbatim>\<open>get_output_files\<close> returns one
  new object for each output, in the order typed: its name is the stripped name line with
  \<^verbatim>\<open>.pdf\<close> appended, whether or not the validator accepted it, and exactly
  \<^verbatim>\<open>.pdf\<close> when the stripped line is empty; its stream is open on the joined path and
  holds no document yet, its buffer empty; the paths are all opened, in that order, when the function
  returns, which is before any generation.
\<close>

theorem get_output_files_opens_targets:
  assumes "stdin w = count_line # concat (map answer_lines answers) @ rest"
    and "py_int count_line = Some (int (length answers))"
    and "1 \<le> length answers" and "length answers \<le> 100"
    and "\<forall>a\<in>set answers. answered page_count a \<and> open_fault w (target_path path a) = None"
  shows "fst (get_output_files path page_count w) = Inr [next_ref w..<next_ref w + length answers] \<and>
         (\<forall>j<length answers.
            heap (snd (get_output_files path page_count w)) (next_ref w + j) =
              \<lparr>name = strip (name_line (answers ! j)) @ ''.pdf'',
               page_interval = (first_page (answers ! j), last_page (answers ! j)),
               current_page = first_page (answers ! j),
               stream = FileObject
                 (os_path_join path (strip (name_line (answers ! j)) @ ''.pdf'')) [] (Buffered 0)\<rparr>) \<and>
         (\<forall>j<length answers.
            strip (name_line (answers ! j)) = [] \<longrightarrow>
            name (heap (snd (get_output_files path page_count w)) (next_ref w + j)) = ''.pdf'') \<and>
         opened (snd (get_output_files path page_count w)) =
           opened w @
           map (\<lambda>a. os_path_join path (strip (name_line a) @ ''.pdf'')) answers \<and>
         stdin (snd (get_output_files path page_count w)) = rest"
proof -
  note s = get_output_files_script [OF assms]
  have m: "map (target_path path) answers =
           map (\<lambda>a. os_path_join path (strip (name_line a) @ ''.pdf'')) answers"
    by (simp add: target_path_def)
  have h: "\<forall>j<length answers.
            heap (snd (get_output_files path page_count w)) (next_ref w + j) =
              planned_output path (answers ! j)"
    using s by blast
  show ?thesis
    using s h by (simp add: m planned_output_def target_path_def)
qed

lemma py_int_digits:
  "py_int ''1'' = Some 1" "py_int ''2'' = Some 2" "py_int ''3'' = Some 3"
  by (simp_all add: py_int_def int_space_def is_digit_def digit_value_def code_point_def)

lemma typed_session_answers:
  "stdin (typed_session :: 'p world) = ''2'' # concat (map answer_lines typed_answers) @ [''zz'']"
  "py_int ''2'' = Some (int (length typed_answers))"
  "1 \<le> length typed_answers" "length typed_answers \<le> 100"
  "\<forall>a\<in>set typed_answers.
     answered 3 a \<and> open_fault (typed_session :: 'p world) (target_path ''d'' a) = None"
  by (simp_all add: typed_session_def typed_answers_def session_start_def answer_lines_def
        answered_def py_int_digits)

theorem get_output_files_opens_targets_witness:
  "fst (get_output_files ''d'' 3 (typed_session :: unit world)) = Inr [0, 1] \<and>
   name (heap (snd (get_output_files ''d'' 3 (typed_session :: unit world))) 1) = ''.pdf'' \<and>
   stream (heap (snd (get_output_files ''d'' 3 (typed_session :: unit world))) 1) =
     FileObject ''d/.pdf'' [] (Buffered 0) \<and>
   opened (snd (get_output_files ''d'' 3 (typed_session :: unit world))) = [''d/a.pdf'', ''d/.pdf''] \<and>
   stdin (snd (get_output_files ''d'' 3 (typed_session :: unit world))) = [''zz'']"
proof -
  have s: "strip ''a'' = ''a''" "strip ''  '' = []"
    by (simp_all add: strip_def isspace_def code_point_def)
  have j: "os_path_join ''d'' ''a.pdf'' = ''d/a.pdf''" "os_path_join ''d'' ''.pdf'' = ''d/.pdf''"
    by (simp_all add: os_path_join_def startswith_def endswith_def)
  have n: "next_ref (typed_session :: unit world) = 0" "opened (typed_session :: unit world) = []"
    by (simp_all add: typed_session_def session_start_def)
  have l: "length typed_answers = 2" "typed_answers ! 0 = \<lparr>name_line = ''a'', first_line = ''1'',
      first_page = 1, last_line = ''2'', last_page = 2\<rparr>"
    "typed_answers ! 1 = \<lparr>name_line = ''  '', first_line = ''2'', first_page = 2,
      last_line = ''3'', last_page = 3\<rparr>"
    by (simp_all add: typed_answers_def)
  note t = get_output_files_opens_targets [OF typed_session_answers, where 'a = unit]
  note t1 = t [THEN conjunct1]
  note t2 = t [THEN conjunct2, THEN conjunct1, rule_format, of 1]
  note t4 = t [THEN conjunct2, THEN conjunct2, THEN conjunct2, THEN conjunct1]
  note t5 = t [THEN conjunct2, THEN conjunct2, THEN conjunct2, THEN conjunct2]
  have u: "[0..<2] = [0, Suc 0]" by (simp add: upt_conv_Cons)
  have 1: "fst (get_output_files ''d'' 3 (typed_session :: unit world)) = Inr [0, 1]"
    using t1 by (simp add: n l(1) u)
  have 2: "heap (snd (get_output_files ''d'' 3 (typed_session :: unit world))) 1 =
      \<lparr>name = ''.pdf'', page_interval = (2, 3), current_page = 2,
       stream = FileObject ''d/.pdf'' [] (Buffered 0)\<rparr>"
    using t2 by (simp add: n typed_answers_def s j)
  have 3: "opened (snd (get_output_files ''d'' 3 (typed_session :: unit world))) =
      [''d/a.pdf'', ''d/.pdf'']"
    using t4 by (simp add: n typed_answers_def s j)
  have 4: "stdin (snd (get_output_files ''d'' 3 (typed_session :: unit world))) = [''zz'']"
    using t5 by simp
  show ?thesis
    using 1 2 3 4 by simp
qed

section \<open>Pages stay in range\<close>

lemma collect_targets_plan:
  assumes "collect_targets path page_count i k targets w = (Inr rs, w')"
  shows "\<exists>new. rs = targets @ new \<and> distinct new \<and>
           (\<forall>r\<in>set new. next_ref w \<le> r \<and> r < next_ref w' \<and>
              current_page (heap w' r) = fst (page_interval (heap w' r)) \<and>
              1 \<le> fst (page_interval (heap w' r)) \<and>
              fst (page_interval (heap w' r)) \<le> snd (page_interval (heap w' r)) \<and>
              snd (page_interval (heap w' r)) \<le> page_count) \<and>
           (\<forall>q<next_ref w. heap w' q = heap w q) \<and>
           next_ref w \<le> next_ref w' \<and> write_fault w' = write_fault w"
  using assms
proof (induction k arbitrary: i targets w)
  case 0
  then show ?case by simp
next
  case (Suc k)
  define w2 where "w2 = py_print (''Output file '' @ str_int (int i + 1) @ '':'')
               (py_print ''--------------------------------'' w)"
  have f2: "heap w2 = heap w" "next_ref w2 = next_ref w" "write_fault w2 = write_fault w"
    by (simp_all add: w2_def py_print_def)
  obtain a w3 where g3:
    "get_file_name (PROMPT_STR @ ''File name: '') ''Invalid file name'' False w2 = (a, w3)"
    by (cases "get_file_name (PROMPT_STR @ ''File name: '') ''Invalid file name'' False w2")
  obtain b w4 where g4:
    "get_int (PROMPT_STR @ ''First page: '') ''Invalid page number'' 1 page_count w3 = (b, w4)"
    by (cases "get_int (PROMPT_STR @ ''First page: '') ''Invalid page number'' 1 page_count w3")
  from Suc.prems g3 obtain nm where a: "a = Inr nm"
    by (cases a) (simp_all only: collect_targets.simps Let_def w2_def [symmetric] prod.case sum.case, simp)
  from Suc.prems g3 g4 a obtain start where b: "b = Inr start"
    by (cases b) (simp_all only: collect_targets.simps Let_def w2_def [symmetric] prod.case sum.case, simp)
  obtain c w5 where g5:
    "get_int (PROMPT_STR @ ''Last page: '') ''Invalid page number'' start page_count w4 = (c, w5)"
    by (cases "get_int (PROMPT_STR @ ''Last page: '') ''Invalid page number'' start page_count w4")
  from Suc.prems g3 g4 g5 a b obtain stop where c: "c = Inr stop"
    by (cases c) (simp_all only: collect_targets.simps Let_def w2_def [symmetric] prod.case sum.case, simp)
  obtain d w6 where g6:
    "OutputFile_init path (nm @ ''.pdf'') (start, stop) w5 = (d, w6)"
    by (cases "OutputFile_init path (nm @ ''.pdf'') (start, stop) w5")
  from Suc.prems g3 g4 g5 g6 a b c obtain r where d: "d = Inr r"
    by (cases d) (simp_all only: collect_targets.simps Let_def w2_def [symmetric] prod.case sum.case, simp)
  have rest: "collect_targets path page_count (Suc i) k (targets @ [r]) w6 = (Inr rs, w')"
    using Suc.prems g3 g4 g5 g6 a b c d
    by (simp only: collect_targets.simps Let_def w2_def [symmetric] prod.case sum.case)
  have f3: "heap w3 = heap w" "next_ref w3 = next_ref w" "write_fault w3 = write_fault w"
    using get_file_name_frame [of "PROMPT_STR @ ''File name: ''" "''Invalid file name''" False w2]
    by (simp_all add: g3 f2)
  have f4: "heap w4 = heap w" "next_ref w4 = next_ref w" "write_fault w4 = write_fault w"
    using get_int_frame [of "PROMPT_STR @ ''First page: ''" "''Invalid page number''" 1 page_count w3]
    by (simp_all add: g4 f3)
  have f5: "heap w5 = heap w" "next_ref w5 = next_ref w" "write_fault w5 = write_fault w"
    using get_int_frame [of "PROMPT_STR @ ''Last page: ''" "''Invalid page number''" start page_count w4]
    by (simp_all add: g5 f4)
  have r4: "1 \<le> start" "start \<le> page_count"
    using get_int_in_range [of _ _ 1 page_count w3 start w4] g4 b by simp_all
  have r5: "start \<le> stop" "stop \<le> page_count"
    using get_int_in_range [of _ _ start page_count w4 stop w5] g5 c by simp_all
  note o = OutputFile_init_object [OF g6 [unfolded d]]
  have r: "r = next_ref w" using o(2) f5 by simp
  have h6: "heap w6 r = \<lparr>name = nm @ ''.pdf'', page_interval = (start, stop),
                          current_page = start, stream = FileObject (os_path_join path (nm @ ''.pdf'')) [] (Buffered 0)\<rparr>"
    using o(1) by simp
  have n6: "next_ref w6 = Suc (next_ref w)" using o(3) r by simp
  have k6: "\<forall>q<next_ref w. heap w6 q = heap w q" using o(5) r f5 by simp
  have f6: "write_fault w6 = write_fault w" using o(9) f5 by simp
  from Suc.IH [OF rest] obtain new where new:
    "rs = (targets @ [r]) @ new" "distinct new"
    "\<forall>x\<in>set new. next_ref w6 \<le> x \<and> x < next_ref w' \<and>
              current_page (heap w' x) = fst (page_interval (heap w' x)) \<and>
              1 \<le> fst (page_interval (heap w' x)) \<and>
              fst (page_interval (heap w' x)) \<le> snd (page_interval (heap w' x)) \<and>
              snd (page_interval (heap w' x)) \<le> page_count"
    "\<forall>q<next_ref w6. heap w' q = heap w6 q" "next_ref w6 \<le> next_ref w'"
    "write_fault w' = write_fault w6"
    by blast
  have hr: "heap w' r = heap w6 r" using new(4) n6 r by simp
  have 1: "rs = targets @ (r # new)" using new(1) by simp
  have 2: "distinct (r # new)" using new(2,3) n6 r by auto
  have 3: "\<forall>x\<in>set (r # new). next_ref w \<le> x \<and> x < next_ref w' \<and>
              current_page (heap w' x) = fst (page_interval (heap w' x)) \<and>
              1 \<le> fst (page_interval (heap w' x)) \<and>
              fst (page_interval (heap w' x)) \<le> snd (page_interval (heap w' x)) \<and>
              snd (page_interval (heap w' x)) \<le> page_count"
    using new(3,5) n6 r hr h6 r4 r5 by auto
  have 4: "\<forall>q<next_ref w. heap w' q = heap w q" using new(4) k6 n6 by simp
  have 5: "next_ref w \<le> next_ref w'" "write_fault w' = write_fault w"
    using new(5,6) n6 f6 by simp_all
  show ?case using 1 2 3 4 5 by blast
qed

lemma get_output_files_plan:
  assumes "get_output_files path page_count w = (Inr rs, w')"
  shows "distinct rs \<and>
         (\<forall>r\<in>set rs.
            current_page (heap w' r) = fst (page_interval (heap w' r)) \<and>
            1 \<le> fst (page_interval (heap w' r)) \<and>
            fst (page_interval (heap w' r)) \<le> snd (page_interval (heap w' r)) \<and>
            snd (page_interval (heap w' r)) \<le> page_count)"
proof -
  define w1 where "w1 = py_print (newline @ ''How many output files do you want to create?'') w"
  obtain b w2 where g:
    "get_int PROMPT_STR ''Please enter a number between 1 and 100'' 1 100 w1 = (b, w2)"
    by (cases "get_int PROMPT_STR ''Please enter a number between 1 and 100'' 1 100 w1")
  from assms g obtain n where b: "b = Inr n"
    by (cases b) (simp_all only: get_output_files_def Let_def w1_def [symmetric] prod.case sum.case, simp)
  have "collect_targets path page_count 0 (nat n) [] w2 = (Inr rs, w')"
    using assms g b
    by (simp only: get_output_files_def Let_def w1_def [symmetric] prod.case sum.case)
  from collect_targets_plan [OF this] show ?thesis by auto
qed

lemma generate_planned_outcome:
  assumes "distinct rs" and "\<forall>r\<in>set rs. planned reader (heap v r)"
  shows "fst (generate_output_files reader rs print_generated v) = Inr () \<or>
         (\<exists>r\<in>set rs. \<exists>e. write_fault v (stream_path (stream (heap v r))) = Some e \<and>
            fst (generate_output_files reader rs print_generated v) = Inl e)"
proof (cases "\<forall>r\<in>set rs.
                stream_write v (stream (heap v r)) (plan_document reader (heap v r)) =
                  Inr (written v (stream (heap v r)) (plan_document reader (heap v r)))")
  case True
  then have "generate_output_files reader rs print_generated v =
             spec_generate_output_files reader rs print_generated v"
    using assms by (intro generate_print_planned) simp_all
  then show ?thesis
    using spec_generate_print [OF assms(1), of reader v] by simp
next
  case False
  then have "\<exists>r\<in>set rs.
               stream_write v (stream (heap v r)) (plan_document reader (heap v r)) \<noteq>
                 Inr (written v (stream (heap v r)) (plan_document reader (heap v r)))"
    by simp
  from split_list_first_prop [OF this]
  obtain earlier r later where s: "rs = earlier @ r # later"
    "stream_write v (stream (heap v r)) (plan_document reader (heap v r)) \<noteq>
       Inr (written v (stream (heap v r)) (plan_document reader (heap v r)))"
    "\<forall>d\<in>set earlier.
       \<not> stream_write v (stream (heap v d)) (plan_document reader (heap v d)) \<noteq>
           Inr (written v (stream (heap v d)) (plan_document reader (heap v d)))"
    by blast
  obtain e where e: "stream_write v (stream (heap v r)) (plan_document reader (heap v r)) = Inl e"
  proof (cases "stream_write v (stream (heap v r)) (plan_document reader (heap v r))")
    case (Inl e)
    then show ?thesis by (rule that)
  next
    case (Inr g)
    with s(2) stream_write_returns [OF Inr] show ?thesis by simp
  qed
  have wf: "write_fault v (stream_path (stream (heap v r))) = Some e"
    using e [unfolded stream_write_raises] by blast
  have p: "planned reader (heap v r)" using assms(2) s(1) by simp
  have f: "fst (copy_pages reader (heap v r) []) = Inl e \<or>
         (\<exists>doc. fst (copy_pages reader (heap v r) []) = Inr doc \<and>
                stream_write v (stream (heap v r)) doc = Inl e)"
    using copy_pages_planned [OF p] e by simp
  have "\<forall>d\<in>set earlier. planned reader (heap v d) \<and>
          stream_write v (stream (heap v d)) (plan_document reader (heap v d)) =
            Inr (written v (stream (heap v d)) (plan_document reader (heap v d)))"
    using assms(2) s(1,3) by simp
  from generate_failure_at [OF assms(1) [unfolded s(1)] this f]
  have "fst (generate_output_files reader rs print_generated v) = Inl e"
    unfolding s(1) by auto
  moreover have "r \<in> set rs" using s(1) by simp
  ultimately show ?thesis using wf by blast
qed

text \<open>
  C8. Let the plan be what \<^verbatim>\<open>get_output_files\<close> returns when it is asked with the number
  of pages of the source. Then every planned interval lies between 1 and that number, by
  the bounds of the two prompts; every page number \<open>k\<close> the generator of a planned
  output yields gives the index \<open>k - 1\<close> between 0 and the number of pages less one, where
  the reader has a page; the copy loop of every planned output ends without an exception;
  and an exception that leaves the generation is one raised by writing to a stream, never
  the \<^verbatim>\<open>IndexError\<close> of the reader.
\<close>

theorem bounded_prompts_keep_pages_in_range:
  assumes "get_output_files path (int (length reader)) w0 = (Inr output_files, w)"
  shows "(\<forall>r\<in>set output_files.
            1 \<le> fst (page_interval (heap w r)) \<and>
            fst (page_interval (heap w r)) \<le> snd (page_interval (heap w r)) \<and>
            snd (page_interval (heap w r)) \<le> int (length reader)) \<and>
         (\<forall>r\<in>set output_files. \<forall>k\<in>set (fst (pages (heap w r))).
            0 \<le> k - 1 \<and> k - 1 \<le> int (length reader) - 1 \<and>
            getPage reader (k - 1) = Inr (reader ! nat (k - 1))) \<and>
         (\<forall>r\<in>set output_files.
            fst (copy_pages reader (heap w r) []) = Inr (plan_document reader (heap w r))) \<and>
         (\<forall>e. fst (generate_output_files reader output_files print_generated w) = Inl e \<longrightarrow>
            (\<exists>r\<in>set output_files. write_fault w (stream_path (stream (heap w r))) = Some e))"
proof -
  note p = get_output_files_plan [OF assms]
  have pl: "\<forall>r\<in>set output_files. planned reader (heap w r)"
    using p by (simp add: planned_def)
  have 1: "\<forall>r\<in>set output_files.
            1 \<le> fst (page_interval (heap w r)) \<and>
            fst (page_interval (heap w r)) \<le> snd (page_interval (heap w r)) \<and>
            snd (page_interval (heap w r)) \<le> int (length reader)"
    using p by blast
  have 2: "\<forall>r\<in>set output_files. \<forall>k\<in>set (fst (pages (heap w r))).
            0 \<le> k - 1 \<and> k - 1 \<le> int (length reader) - 1 \<and>
            getPage reader (k - 1) = Inr (reader ! nat (k - 1))"
  proof (intro ballI)
    fix r k assume r: "r \<in> set output_files" and k: "k \<in> set (fst (pages (heap w r)))"
    from r pl have q: "planned reader (heap w r)" by blast
    from k have "fst (page_interval (heap w r)) \<le> k" "k \<le> snd (page_interval (heap w r))"
      using q by (simp_all add: pages_yields planned_def)
    with q have b: "1 \<le> k" "k \<le> int (length reader)" by (simp_all add: planned_def)
    then show "0 \<le> k - 1 \<and> k - 1 \<le> int (length reader) - 1 \<and>
            getPage reader (k - 1) = Inr (reader ! nat (k - 1))"
      using getPage_in_range [OF b] by simp
  qed
  have 3: "\<forall>r\<in>set output_files.
            fst (copy_pages reader (heap w r) []) = Inr (plan_document reader (heap w r))"
    using pl copy_pages_planned by (metis fst_conv)
  have 4: "\<forall>e. fst (generate_output_files reader output_files print_generated w) = Inl e \<longrightarrow>
            (\<exists>r\<in>set output_files. write_fault w (stream_path (stream (heap w r))) = Some e)"
    using generate_planned_outcome [OF p [THEN conjunct1] pl] by auto
  show ?thesis using 1 2 3 4 by blast
qed

theorem bounded_prompts_keep_pages_in_range_witness:
  "fst (get_output_files ''d'' 3 (typed_session :: nat world)) = Inr [0, 1] \<and>
   fst (copy_pages [10, 20, 30] (heap (snd (get_output_files ''d'' 3 (typed_session :: nat world))) 1) [])
     = Inr [20, 30] \<and>
   fst (generate_output_files [10, 20, 30] [0, 1] print_generated
          (snd (get_output_files ''d'' 3 (typed_session :: nat world)))) = Inr ()"
proof -
  note s = get_output_files_script [OF typed_session_answers, where 'a = nat]
  have n: "next_ref (typed_session :: nat world) = 0"
    "write_fault (typed_session :: nat world) = (\<lambda>p. None)"
    by (simp_all add: typed_session_def session_start_def)
  have u: "[0..<2] = [0, Suc 0]" by (simp add: upt_conv_Cons)
  have v: "[2..3] = [2, 3 :: int]" by (simp add: upto_rec1)
  have 1: "fst (get_output_files ''d'' 3 (typed_session :: nat world)) = Inr [0, 1]"
    using s [THEN conjunct1] by (simp add: n typed_answers_def u)
  then have g: "get_output_files ''d'' (int (length [10, 20, 30 :: nat])) (typed_session :: nat world) =
      (Inr [0, 1], snd (get_output_files ''d'' 3 (typed_session :: nat world)))"
    by (simp add: prod_eq_iff)
  note t = bounded_prompts_keep_pages_in_range [OF g]
  have h: "heap (snd (get_output_files ''d'' 3 (typed_session :: nat world))) (Suc 0) =
             planned_output ''d'' (typed_answers ! Suc 0)"
    using s [THEN conjunct2, THEN conjunct1, rule_format, of "Suc 0"]
    by (simp add: n typed_answers_def)
  have 2: "fst (copy_pages [10, 20, 30] (heap (snd (get_output_files ''d'' 3 (typed_session :: nat world))) 1) [])
     = Inr [20, 30]"
    using t [THEN conjunct2, THEN conjunct2, THEN conjunct1, rule_format, of 1]
    by (simp add: h plan_document_def planned_output_def typed_answers_def v)
  have f: "write_fault (snd (get_output_files ''d'' 3 (typed_session :: nat world))) = (\<lambda>p. None)"
    using s by (simp add: n)
  have 3: "fst (generate_output_files [10, 20, 30] [0, 1] print_generated
          (snd (get_output_files ''d'' 3 (typed_session :: nat world)))) = Inr ()"
  proof (cases "fst (generate_output_files [10, 20, 30] [0, 1] print_generated
          (snd (get_output_files ''d'' 3 (typed_session :: nat world))))")
    case (Inl e)
    with t [THEN conjunct2, THEN conjunct2, THEN conjunct2, rule_format, of e]
    show ?thesis by (simp add: f)
  next
    case (Inr u)
    then show ?thesis by simp
  qed
  show ?thesis using 1 2 3 by simp
qed

end
